theory Spec2Isabelle
  imports Complex_Main
begin

section \<open>Arrays\<close>

text \<open>
  The solver of \<^verbatim>\<open>total_variation.py\<close> works on numpy arrays of floats. The embedding
  takes the entries as real numbers, so every sum and product is exact. A one-dimensional
  array is a list; a two-dimensional array carries its shape and its entries in row-major
  order. A numpy operation that raises is a value \<open>Inl e\<close>. Where numpy would go on with
  \<^verbatim>\<open>inf\<close> or \<^verbatim>\<open>nan\<close> after a division by zero, no real number stands for the
  result, and the embedding stops with \<open>NonFinite\<close>.
\<close>

datatype error = ValueError | IndexError | NonFinite

type_synonym vec = "real list"

record image =
  height :: nat
  width :: nat
  pixels :: "real list"

definition wf_image :: "image \<Rightarrow> bool" where
  "wf_image u \<longleftrightarrow> length (pixels u) = height u * width u"

definition bindE :: "error + 'a \<Rightarrow> ('a \<Rightarrow> error + 'b) \<Rightarrow> error + 'b" where
  "bindE m f = (case m of Inl e \<Rightarrow> Inl e | Inr x \<Rightarrow> f x)"

fun foldE :: "('a \<Rightarrow> 's \<Rightarrow> error + 's) \<Rightarrow> 'a list \<Rightarrow> 's \<Rightarrow> error + 's" where
  "foldE f [] s = Inr s"
| "foldE f (x # xs) s = bindE (f x s) (foldE f xs)"

text \<open>Python's slice \<^verbatim>\<open>a[lo:hi]\<close>: a negative bound counts from the end, and both bounds
  are clamped to the array.\<close>

definition clamp_index :: "nat \<Rightarrow> int \<Rightarrow> nat" where
  "clamp_index n i = (if i < 0 then nat (max 0 (int n + i)) else min (nat i) n)"

definition slice_bounds :: "nat \<Rightarrow> int option \<Rightarrow> int option \<Rightarrow> nat \<times> nat" where
  "slice_bounds n lo hi =
     (let s = (case lo of None \<Rightarrow> 0 | Some i \<Rightarrow> clamp_index n i);
          e = (case hi of None \<Rightarrow> n | Some i \<Rightarrow> clamp_index n i)
      in (s, max s e))"

definition slice :: "int option \<Rightarrow> int option \<Rightarrow> 'a list \<Rightarrow> 'a list" where
  "slice lo hi xs = (case slice_bounds (length xs) lo hi of (s, e) \<Rightarrow> take (e - s) (drop s xs))"

text \<open>Broadcasting of one-dimensional operands: equal lengths, or a single entry that is
  repeated; anything else raises.\<close>

definition broadcast_to :: "nat \<Rightarrow> vec \<Rightarrow> error + vec" where
  "broadcast_to n ys =
     (if length ys = n then Inr ys
      else if length ys = 1 then Inr (replicate n (hd ys))
      else Inl ValueError)"

definition np_binop :: "(real \<Rightarrow> real \<Rightarrow> real) \<Rightarrow> vec \<Rightarrow> vec \<Rightarrow> error + vec" where
  "np_binop f xs ys =
     (if length xs = length ys then Inr (map2 f xs ys)
      else if length xs = 1 then Inr (map (f (hd xs)) ys)
      else if length ys = 1 then Inr (map (\<lambda>x. f x (hd ys)) xs)
      else Inl ValueError)"

text \<open>\<^verbatim>\<open>a[lo:hi] += ys\<close>, \<^verbatim>\<open>a[lo:hi] += c\<close> for a scalar and \<^verbatim>\<open>a[lo:hi] = ys\<close>.\<close>

definition iadd_slice :: "vec \<Rightarrow> int option \<Rightarrow> int option \<Rightarrow> vec \<Rightarrow> error + vec" where
  "iadd_slice xs lo hi ys =
     (case slice_bounds (length xs) lo hi of (s, e) \<Rightarrow>
        bindE (broadcast_to (e - s) ys)
          (\<lambda>zs. Inr (take s xs @ map2 (+) (take (e - s) (drop s xs)) zs @ drop e xs)))"

definition iadd_slice_scalar :: "vec \<Rightarrow> int option \<Rightarrow> int option \<Rightarrow> real \<Rightarrow> vec" where
  "iadd_slice_scalar xs lo hi c =
     (case slice_bounds (length xs) lo hi of (s, e) \<Rightarrow>
        take s xs @ map (\<lambda>x. x + c) (take (e - s) (drop s xs)) @ drop e xs)"

definition set_slice :: "vec \<Rightarrow> int option \<Rightarrow> int option \<Rightarrow> vec \<Rightarrow> error + vec" where
  "set_slice xs lo hi ys =
     (case slice_bounds (length xs) lo hi of (s, e) \<Rightarrow>
        bindE (broadcast_to (e - s) ys) (\<lambda>zs. Inr (take s xs @ zs @ drop e xs)))"

definition np_zeros :: "int \<Rightarrow> error + vec" where
  "np_zeros n = (if n < 0 then Inl ValueError else Inr (replicate (nat n) 0))"

definition np_clip :: "vec \<Rightarrow> real \<Rightarrow> real \<Rightarrow> vec" where
  "np_clip xs lo hi = map (\<lambda>x. min (max x lo) hi) xs"

definition np_reciprocal :: "vec \<Rightarrow> error + vec" where
  "np_reciprocal xs = (if 0 \<in> set xs then Inl NonFinite else Inr (map (\<lambda>x. 1 / x) xs))"

text \<open>\<^verbatim>\<open>np.insert(xs, idxs, v)\<close> for a list of indices into the array as it is before the
  insertion: negative indices count from the end, an index outside the array raises, and
  the value goes before each indexed entry. \<open>insert_at off ks v xs\<close> walks the sorted
  indices \<open>ks\<close>, where \<open>xs\<close> is what is left of the array from position \<open>off\<close> on. The
  solver only passes indices between \<open>0\<close> and the length of the array when the image has at
  least \<open>length\<close> columns; for a list of several indices with a negative one numpy does not
  check each index, and the embedding, which raises \<open>IndexError\<close> there, is not exact.\<close>

fun insert_at :: "nat \<Rightarrow> nat list \<Rightarrow> real \<Rightarrow> vec \<Rightarrow> vec" where
  "insert_at off [] v xs = xs"
| "insert_at off (k # ks) v xs = take (k - off) xs @ v # insert_at k ks v (drop (k - off) xs)"

definition np_insert :: "vec \<Rightarrow> int list \<Rightarrow> real \<Rightarrow> error + vec" where
  "np_insert xs idxs v =
     (let n = int (length xs) in
      if list_ex (\<lambda>k. k < - n \<or> n < k) idxs then Inl IndexError
      else Inr (insert_at 0 (sort (map (\<lambda>k. nat (if k < 0 then k + n else k)) idxs)) v xs))"

definition np_reshape :: "vec \<Rightarrow> nat \<times> nat \<Rightarrow> error + image" where
  "np_reshape xs shape =
     (case shape of (h, w) \<Rightarrow>
        if length xs = h * w then Inr \<lparr>height = h, width = w, pixels = xs\<rparr> else Inl ValueError)"

definition rows :: "image \<Rightarrow> real list list" where
  "rows u = map (\<lambda>r. take (width u) (drop (r * width u) (pixels u))) [0..<height u]"

text \<open>Element-wise operations on two images of one shape, and on one image.\<close>

definition image_map2 :: "(real \<Rightarrow> real \<Rightarrow> real) \<Rightarrow> image \<Rightarrow> image \<Rightarrow> image" where
  "image_map2 f a b = a\<lparr>pixels := map2 f (pixels a) (pixels b)\<rparr>"

definition image_map :: "(real \<Rightarrow> real) \<Rightarrow> image \<Rightarrow> image" where
  "image_map f a = a\<lparr>pixels := map f (pixels a)\<rparr>"

definition norm2 :: "vec \<Rightarrow> real" where
  "norm2 xs = sqrt (sum_list (map (\<lambda>x. x * x) xs))"

section \<open>The solver\<close>

record solver =
  lambd :: real
  max_iter :: int
  coef :: "real list"
  tol :: real
  eps :: real
  saturation :: bool
  extended_output :: bool
  length_s :: int

text \<open>\<^verbatim>\<open>__init__\<close> stores its arguments and \<^verbatim>\<open>len(coef) - 1\<close>; it has no check.\<close>

definition init :: "real \<Rightarrow> int \<Rightarrow> real list \<Rightarrow> real \<Rightarrow> real \<Rightarrow> bool \<Rightarrow> bool \<Rightarrow> error + solver" where
  "init lam mi cf tolr epsr sat ext =
     Inr \<lparr>lambd = lam, max_iter = mi, coef = cf, tol = tolr, eps = epsr,
          saturation = sat, extended_output = ext, length_s = int (length cf) - 1\<rparr>"

text \<open>\<^verbatim>\<open>_tv\<close>: \<^verbatim>\<open>np.roll(u, -i, axis=1)\<close> rotates every row to the left by \<open>i\<close>,
  \<^verbatim>\<open>np.roll(u, -i, axis=0)\<close> rotates the list of rows.\<close>

definition tv_step :: "solver \<Rightarrow> image \<Rightarrow> nat \<times> real \<Rightarrow> vec \<Rightarrow> error + vec" where
  "tv_step s u = (\<lambda>(i, c) ret.
     let h = int (height u); w = int (width u) in
     bindE (iadd_slice ret None (Some (h * w - length_s s * h))
              (map ((*) c) (concat (map (slice None (Some (- length_s s))) (map (rotate i) (rows u))))))
       (\<lambda>ret1. iadd_slice ret1 (Some (h * w - length_s s * h)) None
              (map ((*) c) (concat (slice None (Some (- length_s s)) (rotate i (rows u)))))))"

definition tv :: "solver \<Rightarrow> image \<Rightarrow> error + vec" where
  "tv s u =
     (let h = int (height u); w = int (width u) in
      bindE (np_zeros (2 * h * w - length_s s * (h + w)))
        (foldE (tv_step s u) (enumerate 0 (coef s))))"

text \<open>\<^verbatim>\<open>_transposed_tv\<close>: the horizontal block gets a zero at every row boundary,
  \<open>length\<close> times over, and is then added at offset \<open>i\<close> for tap \<open>i\<close>; the vertical block is
  added at offset \<open>w * i\<close>.\<close>

definition transposed_tv_step :: "solver \<Rightarrow> vec \<Rightarrow> nat \<times> nat \<Rightarrow> vec \<Rightarrow> nat \<times> real \<Rightarrow> vec \<Rightarrow> error + vec" where
  "transposed_tv_step s v shape v0 = (\<lambda>(i, c) ret.
     case shape of (h, w) \<Rightarrow>
     let index1 = int h * (int w - length_s s);
         index2 = int w * (int h - length_s s) in
     bindE (iadd_slice ret (Some (int i)) (Some (int i + int (length v0))) (map ((*) c) v0))
       (\<lambda>ret1. iadd_slice ret1 (Some (int w * int i)) (Some (int w * int i + index2))
              (map ((*) c) (slice (Some index1) None v))))"

text \<open>The first loop of \<^verbatim>\<open>_transposed_tv\<close>, which builds \<^verbatim>\<open>v0\<close>.\<close>

definition insert_zeros :: "solver \<Rightarrow> vec \<Rightarrow> nat \<times> nat \<Rightarrow> error + vec" where
  "insert_zeros s v shape =
     (case shape of (h, w) \<Rightarrow>
      let index1 = int h * (int w - length_s s) in
      foldE (\<lambda>i v0. np_insert v0 (map (\<lambda>j. int j * (int w - length_s s + int i)) [1..<h]) 0)
        [0..<nat (length_s s)] (slice None (Some index1) v))"

definition transposed_tv :: "solver \<Rightarrow> vec \<Rightarrow> nat \<times> nat \<Rightarrow> error + vec" where
  "transposed_tv s v shape =
     (case shape of (h, w) \<Rightarrow>
      let hw = h * w;
          ret = replicate hw 0 in
      bindE (insert_zeros s v shape)
        (\<lambda>v0. foldE (transposed_tv_step s v shape v0) (enumerate 0 (coef s)) ret))"

text \<open>\<^verbatim>\<open>_step_size\<close>.\<close>

definition step_size :: "solver \<Rightarrow> nat \<times> nat \<Rightarrow> error + vec \<times> vec" where
  "step_size s shape =
     (case shape of (h, w) \<Rightarrow>
      let hw = h * w;
          index = int w * (int h - length_s s);
          abs_coef = map abs (coef s);
          abs_sum = sum_list abs_coef;
          tau0 = replicate hw (lambd s) in
      bindE (foldE (\<lambda>i tile. iadd_slice tile (Some (int i)) (Some (int i + length_s s + 1)) abs_coef)
               [0..<nat (int w - length_s s)] (replicate w 0))
        (\<lambda>tile.
      bindE (iadd_slice tau0 None None (concat (replicate h tile)))
        (\<lambda>tau1.
      let tau2 = fold (\<lambda>(i, c) tau. iadd_slice_scalar tau (Some (int w * int i))
                         (Some (int w * int i + index)) c) (enumerate 0 abs_coef) tau1 in
      bindE (np_reciprocal tau2)
        (\<lambda>tau.
      bindE (np_zeros (3 * int hw - length_s s * (int h + int w)))
        (\<lambda>sigma0.
      let sigma1 = iadd_slice_scalar sigma0 None (Some (- int hw)) abs_sum;
          sigma2 = iadd_slice_scalar sigma1 (Some (- int hw)) None (lambd s) in
      bindE (np_reciprocal sigma2)
        (\<lambda>sigma. Inr (tau, sigma)))))))"

section \<open>The primal-dual iteration\<close>

record state =
  res :: image
  dual :: vec
  obj :: "real list"

text \<open>The value appended to \<^verbatim>\<open>obj\<close>:
  \<^verbatim>\<open>np.sum(np.abs(self._tv(res))) + self.lambd * np.sum(np.abs(res - X))\<close>.\<close>

definition objective :: "solver \<Rightarrow> image \<Rightarrow> image \<Rightarrow> error + real" where
  "objective s r X =
     bindE (tv s r)
       (\<lambda>d. Inr (sum_list (map abs d) + lambd s * sum_list (map abs (pixels (image_map2 (-) r X)))))"

definition record_objective :: "solver \<Rightarrow> image \<Rightarrow> image \<Rightarrow> real list \<Rightarrow> error + real list" where
  "record_objective s r X os =
     (if extended_output s then bindE (objective s r X) (\<lambda>v. Inr (os @ [v])) else Inr os)"

text \<open>The part of \<^verbatim>\<open>transform\<close> before the main loop.\<close>

definition initialize :: "solver \<Rightarrow> image \<Rightarrow> vec \<Rightarrow> error + state" where
  "initialize s X sigma =
     (let h = height X; w = width X; hw = h * w in
      bindE (np_zeros (3 * int h * int w - (int (length (coef s)) - 1) * (int h + int w)))
        (\<lambda>dual0.
      bindE (tv s X)
        (\<lambda>d.
      bindE (np_binop (*) (slice None (Some (- int hw)) sigma) d)
        (\<lambda>sd.
      bindE (set_slice dual0 None (Some (- int hw)) (np_clip sd (-1) 1))
        (\<lambda>dual1.
      bindE (record_objective s X X [])
        (\<lambda>os. Inr \<lparr>res = X, dual = dual1, obj = os\<rparr>))))))"

text \<open>One pass through the body of the main loop, up to the \<^verbatim>\<open>if\<close> that breaks it:
  \<open>update\<close> computes the new state.\<close>

definition update :: "solver \<Rightarrow> image \<Rightarrow> vec \<Rightarrow> vec \<Rightarrow> state \<Rightarrow> error + state" where
  "update s X tau sigma st =
     (let h = height X; w = width X; hw = h * w in
      bindE (transposed_tv s (slice None (Some (- int hw)) (dual st)) (h, w))
        (\<lambda>g.
      bindE (np_binop (+) g (map ((*) (lambd s)) (slice (Some (- int hw)) None (dual st))))
        (\<lambda>grad.
      bindE (np_binop (*) tau grad)
        (\<lambda>stp.
      bindE (np_reshape stp (h, w))
        (\<lambda>m.
      let u = (if saturation s
               then image_map (\<lambda>x. min (max x 0) 1) (image_map2 (-) (res st) m)
               else image_map2 (-) (res st) m);
          bar_u = image_map2 (-) (image_map ((*) 2) u) (res st) in
      bindE (tv s bar_u)
        (\<lambda>d.
      bindE (np_binop (*) (slice None (Some (- int hw)) sigma) d)
        (\<lambda>inc1.
      bindE (iadd_slice (dual st) None (Some (- int hw)) inc1)
        (\<lambda>dual1.
      bindE (np_binop (*) (map (\<lambda>x. x * lambd s) (slice (Some (- int hw)) None sigma))
               (pixels (image_map2 (-) bar_u X)))
        (\<lambda>inc2.
      bindE (iadd_slice dual1 (Some (- int hw)) None inc2)
        (\<lambda>dual2.
      let dual3 = np_clip dual2 (-1) 1 in
      bindE (record_objective s u X (obj st))
        (\<lambda>os. Inr \<lparr>res = u, dual = dual3, obj = os\<rparr>)))))))))))"

text \<open>The test that breaks the loop, on the state \<open>st\<close> before the pass and the state \<open>st'\<close>
  after it: \<^verbatim>\<open>np.linalg.norm(diff) / (np.linalg.norm(res) + self.eps) < self.tol\<close> with
  \<^verbatim>\<open>diff = u - res\<close>. numpy's division by a zero denominator gives \<^verbatim>\<open>inf\<close> or
  \<^verbatim>\<open>nan\<close>, and the comparison with \<^verbatim>\<open>tol\<close> is then false.\<close>

definition converged :: "solver \<Rightarrow> state \<Rightarrow> state \<Rightarrow> bool" where
  "converged s st st' =
     (let diff = image_map2 (-) (res st') (res st);
          den = norm2 (pixels (res st')) + eps s
      in den \<noteq> 0 \<and> norm2 (pixels diff) / den < tol s)"

definition iteration :: "solver \<Rightarrow> image \<Rightarrow> vec \<Rightarrow> vec \<Rightarrow> state \<Rightarrow> error + state \<times> bool" where
  "iteration s X tau sigma st =
     bindE (update s X tau sigma st) (\<lambda>st'. Inr (st', converged s st st'))"

text \<open>\<^verbatim>\<open>for _ in trange(self.max_iter)\<close> with its \<^verbatim>\<open>break\<close>.\<close>

fun main_loop :: "solver \<Rightarrow> image \<Rightarrow> vec \<Rightarrow> vec \<Rightarrow> nat \<Rightarrow> state \<Rightarrow> error + state" where
  "main_loop s X tau sigma 0 st = Inr st"
| "main_loop s X tau sigma (Suc n) st =
     bindE (iteration s X tau sigma st)
       (\<lambda>(st', stop). if stop then Inr st' else main_loop s X tau sigma n st')"

definition transform :: "solver \<Rightarrow> image \<Rightarrow> error + image \<times> real list" where
  "transform s X =
     bindE (step_size s (height X, width X))
       (\<lambda>(tau, sigma).
     bindE (initialize s X sigma)
       (\<lambda>st0.
     bindE (main_loop s X tau sigma (nat (max_iter s)) st0)
       (\<lambda>st. Inr (res st, obj st))))"

section \<open>Closed forms on admissible shapes\<close>

text \<open>For a stencil of \<open>L + 1\<close> taps on an image with more than \<open>L\<close> rows and columns no
  slice is clamped and no rotation wraps into what is kept. Tap \<open>i\<close> then contributes the
  two blocks below to \<^verbatim>\<open>_tv\<close>.\<close>

definition hblock :: "nat \<Rightarrow> nat \<Rightarrow> image \<Rightarrow> vec" where
  "hblock L i u = concat (map (\<lambda>row. take (width u - L) (drop i row)) (rows u))"

definition vblock :: "nat \<Rightarrow> nat \<Rightarrow> image \<Rightarrow> vec" where
  "vblock L i u = take (width u * (height u - L)) (drop (width u * i) (pixels u))"

definition tv_acc :: "nat \<Rightarrow> image \<Rightarrow> nat \<times> real \<Rightarrow> vec \<Rightarrow> vec" where
  "tv_acc L u = (\<lambda>(i, c) ret. map2 (+) ret (map ((*) c) (hblock L i u @ vblock L i u)))"

definition stencil :: "solver \<Rightarrow> nat \<Rightarrow> bool" where
  "stencil s L \<longleftrightarrow> length (coef s) = Suc L \<and> length_s s = int L \<and> 0 < L"

text \<open>The horizontal block after \<open>k\<close> rounds of insertion: \<open>h\<close> rows of \<open>m\<close> entries, each
  but the last followed by \<open>k\<close> zeros.\<close>

fun pad_rows :: "nat \<Rightarrow> nat \<Rightarrow> nat \<Rightarrow> vec \<Rightarrow> vec" where
  "pad_rows k m 0 xs = []"
| "pad_rows k m (Suc 0) xs = take m xs"
| "pad_rows k m (Suc (Suc n)) xs = take m xs @ replicate k 0 @ pad_rows k m (Suc n) (drop m xs)"

text \<open>\<open>xs\<close> placed at offset \<open>k\<close> in a zero vector of \<open>n\<close> entries.\<close>

definition embed_at :: "nat \<Rightarrow> nat \<Rightarrow> vec \<Rightarrow> vec" where
  "embed_at n k xs = replicate k 0 @ xs @ replicate (n - k - length xs) 0"

definition transposed_tv_acc :: "nat \<Rightarrow> nat \<Rightarrow> nat \<Rightarrow> vec \<Rightarrow> nat \<times> real \<Rightarrow> vec \<Rightarrow> vec" where
  "transposed_tv_acc L h w v = (\<lambda>(i, c) ret.
     map2 (+) (map2 (+) ret (map ((*) c) (embed_at (h * w) i (pad_rows L (w - L) h (take (h * (w - L)) v)))))
       (map ((*) c) (embed_at (h * w) (w * i) (drop (h * (w - L)) v))))"

definition dot :: "vec \<Rightarrow> vec \<Rightarrow> real" where
  "dot xs ys = sum_list (map2 (*) xs ys)"


text \<open>The sums that \<^verbatim>\<open>_step_size\<close> inverts, on admissible shapes.\<close>

definition tile_of :: "nat \<Rightarrow> nat \<Rightarrow> vec \<Rightarrow> vec" where
  "tile_of w L a = fold (\<lambda>i t. map2 (+) t (embed_at w i a)) [0..<w - L] (replicate w 0)"

definition tau_acc :: "nat \<Rightarrow> nat \<Rightarrow> nat \<Rightarrow> nat \<times> real \<Rightarrow> vec \<Rightarrow> vec" where
  "tau_acc L h w = (\<lambda>(i, c) tau.
     map2 (+) tau (map ((*) c) (embed_at (h * w) (w * i) (replicate (w * (h - L)) 1))))"

definition tau_sums :: "solver \<Rightarrow> nat \<Rightarrow> nat \<Rightarrow> nat \<Rightarrow> vec" where
  "tau_sums s L h w =
     fold (tau_acc L h w) (enumerate 0 (map abs (coef s)))
       (map2 (+) (replicate (h * w) (lambd s)) (concat (replicate h (tile_of w L (map abs (coef s))))))"

definition sigma_sums :: "solver \<Rightarrow> nat \<Rightarrow> nat \<Rightarrow> nat \<Rightarrow> vec" where
  "sigma_sums s L h w =
     replicate (h * (w - L) + w * (h - L)) (sum_list (map abs (coef s))) @ replicate (h * w) (lambd s)"

section \<open>Runs of the solver\<close>

text \<open>The states of one run of \<^verbatim>\<open>transform\<close>: \<open>loop_states\<close> follows \<open>main_loop\<close> and
  collects the state after every completed iteration; \<open>run_states\<close> puts the state after the
  initialisation in front. The result of \<^verbatim>\<open>transform\<close> is read off the last of them.\<close>

fun loop_states :: "solver \<Rightarrow> image \<Rightarrow> vec \<Rightarrow> vec \<Rightarrow> nat \<Rightarrow> state \<Rightarrow> error + state list" where
  "loop_states s X tau sigma 0 st = Inr []"
| "loop_states s X tau sigma (Suc n) st =
     bindE (iteration s X tau sigma st)
       (\<lambda>(st', stop). if stop then Inr [st']
          else bindE (loop_states s X tau sigma n st') (\<lambda>sts. Inr (st' # sts)))"

definition run_states :: "solver \<Rightarrow> image \<Rightarrow> error + state list" where
  "run_states s X =
     bindE (step_size s (height X, width X))
       (\<lambda>(tau, sigma).
     bindE (initialize s X sigma)
       (\<lambda>st0.
     bindE (loop_states s X tau sigma (nat (max_iter s)) st0)
       (\<lambda>sts. Inr (st0 # sts))))"

text \<open>What every state of a run on an admissible shape satisfies.\<close>

definition state_ok :: "nat \<Rightarrow> image \<Rightarrow> state \<Rightarrow> bool" where
  "state_ok L X st \<longleftrightarrow>
     wf_image (res st) \<and> height (res st) = height X \<and> width (res st) = width X
     \<and> length (dual st)
       = height X * (width X - L) + width X * (height X - L) + height X * width X"

definition in_box :: "vec \<Rightarrow> bool" where
  "in_box v \<longleftrightarrow> (\<forall>x\<in>set v. - 1 \<le> x \<and> x \<le> 1)"

section \<open>The stacked operator\<close>




section \<open>Rounded arithmetic\<close>






text \<open>\<^verbatim>\<open>_tv\<close> and \<^verbatim>\<open>_transposed_tv\<close> once more, with a rounding \<open>rnd\<close> applied to every sum and
  product; with the identity for \<open>rnd\<close> they are \<open>tv\<close> and \<open>transposed_tv\<close>. \<open>dot_r\<close> is the
  inner product summed from left to right.\<close>

definition iadd_slice_r :: "(real \<Rightarrow> real) \<Rightarrow> vec \<Rightarrow> int option \<Rightarrow> int option \<Rightarrow> vec \<Rightarrow> error + vec" where
  "iadd_slice_r rnd xs lo hi ys =
     (case slice_bounds (length xs) lo hi of (s, e) \<Rightarrow>
        bindE (broadcast_to (e - s) ys)
          (\<lambda>zs. Inr (take s xs @ map2 (\<lambda>x y. rnd (x + y)) (take (e - s) (drop s xs)) zs @ drop e xs)))"

definition tv_step_r :: "(real \<Rightarrow> real) \<Rightarrow> solver \<Rightarrow> image \<Rightarrow> nat \<times> real \<Rightarrow> vec \<Rightarrow> error + vec" where
  "tv_step_r rnd s u = (\<lambda>(i, c) ret.
     let h = int (height u); w = int (width u) in
     bindE (iadd_slice_r rnd ret None (Some (h * w - length_s s * h))
              (map (\<lambda>x. rnd (c * x))
                 (concat (map (slice None (Some (- length_s s))) (map (rotate i) (rows u))))))
       (\<lambda>ret1. iadd_slice_r rnd ret1 (Some (h * w - length_s s * h)) None
              (map (\<lambda>x. rnd (c * x)) (concat (slice None (Some (- length_s s)) (rotate i (rows u)))))))"

definition tv_r :: "(real \<Rightarrow> real) \<Rightarrow> solver \<Rightarrow> image \<Rightarrow> error + vec" where
  "tv_r rnd s u =
     (let h = int (height u); w = int (width u) in
      bindE (np_zeros (2 * h * w - length_s s * (h + w)))
        (foldE (tv_step_r rnd s u) (enumerate 0 (coef s))))"

definition transposed_tv_step_r ::
    "(real \<Rightarrow> real) \<Rightarrow> solver \<Rightarrow> vec \<Rightarrow> nat \<times> nat \<Rightarrow> vec \<Rightarrow> nat \<times> real \<Rightarrow> vec \<Rightarrow> error + vec" where
  "transposed_tv_step_r rnd s v shape v0 = (\<lambda>(i, c) ret.
     case shape of (h, w) \<Rightarrow>
     let index1 = int h * (int w - length_s s);
         index2 = int w * (int h - length_s s) in
     bindE (iadd_slice_r rnd ret (Some (int i)) (Some (int i + int (length v0)))
              (map (\<lambda>x. rnd (c * x)) v0))
       (\<lambda>ret1. iadd_slice_r rnd ret1 (Some (int w * int i)) (Some (int w * int i + index2))
              (map (\<lambda>x. rnd (c * x)) (slice (Some index1) None v))))"

definition transposed_tv_r :: "(real \<Rightarrow> real) \<Rightarrow> solver \<Rightarrow> vec \<Rightarrow> nat \<times> nat \<Rightarrow> error + vec" where
  "transposed_tv_r rnd s v shape =
     (case shape of (h, w) \<Rightarrow>
      let hw = h * w;
          ret = replicate hw 0 in
      bindE (insert_zeros s v shape)
        (\<lambda>v0. foldE (transposed_tv_step_r rnd s v shape v0) (enumerate 0 (coef s)) ret))"

definition dot_r :: "(real \<Rightarrow> real) \<Rightarrow> vec \<Rightarrow> vec \<Rightarrow> real" where
  "dot_r rnd xs ys = foldl (\<lambda>a (x, y). rnd (a + rnd (x * y))) 0 (zip xs ys)"

section \<open>Basic facts about the array operations\<close>

lemma bindE_Inr [simp]: "bindE (Inr x) f = f x"
  by (simp add: bindE_def)

lemma bindE_Inl [simp]: "bindE (Inl e) f = Inl e"
  by (simp add: bindE_def)

lemma foldE_Inr:
  assumes "\<And>x t. x \<in> set xs \<Longrightarrow> P t \<Longrightarrow> f x t = Inr (g x t) \<and> P (g x t)" and "P t"
  shows "foldE f xs t = Inr (fold g xs t) \<and> P (fold g xs t)"
  using assms by (induction xs arbitrary: t) auto

lemma slice_to_nat: "slice None (Some (int a)) xs = take a xs"
  by (simp add: slice_def slice_bounds_def Let_def clamp_index_def min_def)

lemma slice_from_nat: "slice (Some (int a)) None xs = drop a xs"
  by (auto simp add: slice_def slice_bounds_def Let_def clamp_index_def min_def max_def)

lemma slice_to_neg: "0 < a \<Longrightarrow> slice None (Some (- int a)) xs = take (length xs - a) xs"
  by (auto simp add: slice_def slice_bounds_def Let_def clamp_index_def min_def max_def nat_diff_distrib')

lemma slice_from_neg: "0 < a \<Longrightarrow> slice (Some (- int a)) None xs = drop (length xs - a) xs"
  by (auto simp add: slice_def slice_bounds_def Let_def clamp_index_def min_def max_def nat_diff_distrib')

lemma iadd_slice_nat:
  assumes "a \<le> b" "b \<le> length xs" "length ys = b - a"
  shows "iadd_slice xs (Some (int a)) (Some (int b)) ys
         = Inr (take a xs @ map2 (+) (take (b - a) (drop a xs)) ys @ drop b xs)"
  using assms by (simp add: iadd_slice_def slice_bounds_def Let_def clamp_index_def broadcast_to_def min_def max_def)

lemma iadd_slice_to_nat:
  assumes "b \<le> length xs" "length ys = b"
  shows "iadd_slice xs None (Some (int b)) ys = Inr (map2 (+) (take b xs) ys @ drop b xs)"
  using assms by (simp add: iadd_slice_def slice_bounds_def Let_def clamp_index_def broadcast_to_def min_def max_def)

lemma iadd_slice_from_nat:
  assumes "a \<le> length xs" "length ys = length xs - a"
  shows "iadd_slice xs (Some (int a)) None ys = Inr (take a xs @ map2 (+) (drop a xs) ys)"
  using assms by (simp add: iadd_slice_def slice_bounds_def Let_def clamp_index_def broadcast_to_def min_def max_def)

lemma concat_chunks:
  "h * w \<le> length xs \<Longrightarrow> concat (map (\<lambda>r. take w (drop (r * w) xs)) [0..<h]) = take (h * w) xs"
proof (induction h)
  case 0 then show ?case by simp
next
  case (Suc h)
  then have "concat (map (\<lambda>r. take w (drop (r * w) xs)) [0..<h]) = take (h * w) xs" by simp
  moreover have "Suc h * w = h * w + w" by simp
  ultimately show ?case unfolding upt_Suc by (simp only: take_add) simp
qed

lemma concat_rows: "wf_image u \<Longrightarrow> concat (rows u) = pixels u"
  by (simp add: rows_def wf_image_def concat_chunks)

lemma length_rows [simp]: "length (rows u) = height u"
  by (simp add: rows_def)

lemma rows_length: "wf_image u \<Longrightarrow> r \<in> set (rows u) \<Longrightarrow> length r = width u"
proof -
  assume wf: "wf_image u" and "r \<in> set (rows u)"
  then obtain k where k: "k < height u" "r = take (width u) (drop (k * width u) (pixels u))"
    by (auto simp: rows_def)
  have "Suc k * width u \<le> height u * width u" using k(1) by (intro mult_le_mono1) simp
  then show ?thesis using wf k(2) by (simp add: wf_image_def)
qed

lemma concat_take_uniform:
  "\<forall>r\<in>set rs. length r = w \<Longrightarrow> concat (take a rs) = take (a * w) (concat rs)"
  by (induction rs arbitrary: a) (auto simp: take_Cons' diff_mult_distrib split: if_splits)

lemma concat_drop_uniform:
  "\<forall>r\<in>set rs. length r = w \<Longrightarrow> concat (drop a rs) = drop (a * w) (concat rs)"
  by (induction rs arbitrary: a) (auto simp: drop_Cons' diff_mult_distrib split: if_splits)

section \<open>The forward operator on admissible shapes\<close>

lemma in_enumerate: "(i, c) \<in> set (enumerate 0 xs) \<Longrightarrow> i < length xs \<and> c = xs ! i"
  by (auto simp: in_set_enumerate_eq)

lemma take_rotate:
  assumes "i \<le> L" "L < length r"
  shows "take (length r - L) (rotate i r) = take (length r - L) (drop i r)"
proof -
  have "rotate i r = drop i r @ take i r"
    using assms by (simp add: rotate_drop_take)
  then show ?thesis using assms by simp
qed

lemma length_concat_uniform:
  "\<forall>r\<in>set rs. length r = m \<Longrightarrow> length (concat rs) = length rs * m"
  by (induction rs) auto

lemma tv_hpart:
  assumes "wf_image u" "0 < L" "i \<le> L" "L < width u"
  shows "concat (map (slice None (Some (- int L))) (map (rotate i) (rows u))) = hblock L i u"
proof -
  have "slice None (Some (- int L)) (rotate i r) = take (width u - L) (drop i r)"
    if "r \<in> set (rows u)" for r
    using that assms rows_length[OF assms(1) that] take_rotate[of i L r]
    by (simp add: slice_to_neg)
  then show ?thesis by (simp add: hblock_def cong: map_cong)
qed

lemma length_hblock:
  assumes "wf_image u" "i \<le> L" "L < width u"
  shows "length (hblock L i u) = height u * (width u - L)"
proof -
  have "\<forall>r\<in>set (map (\<lambda>row. take (width u - L) (drop i row)) (rows u)). length r = width u - L"
    using assms rows_length[OF assms(1)] by auto
  from length_concat_uniform[OF this] show ?thesis by (simp add: hblock_def)
qed

lemma tv_vpart:
  assumes "wf_image u" "0 < L" "i \<le> L" "L < height u"
  shows "concat (slice None (Some (- int L)) (rotate i (rows u))) = vblock L i u"
proof -
  have u: "\<forall>r\<in>set (rows u). length r = width u" using rows_length[OF assms(1)] by blast
  have "slice None (Some (- int L)) (rotate i (rows u)) = take (height u - L) (drop i (rows u))"
    using assms take_rotate[of i L "rows u"] by (simp add: slice_to_neg)
  moreover have "\<forall>r\<in>set (drop i (rows u)). length r = width u"
    using u by (meson in_set_dropD)
  ultimately show ?thesis
    using concat_take_uniform[of "drop i (rows u)" "width u" "height u - L"]
          concat_drop_uniform[OF u, of i] concat_rows[OF assms(1)]
    by (simp add: vblock_def mult.commute)
qed

lemma length_vblock:
  assumes "wf_image u" "i \<le> L" "L < height u"
  shows "length (vblock L i u) = width u * (height u - L)"
proof -
  have "(height u - L) + i \<le> height u" using assms by simp
  then have "width u * ((height u - L) + i) \<le> width u * height u"
    by (rule mult_le_mono2)
  then have "width u * (height u - L) + width u * i \<le> width u * height u"
    by (simp only: distrib_left)
  then show ?thesis using assms by (simp add: vblock_def wf_image_def mult.commute)
qed

lemma int_block: "L \<le> w \<Longrightarrow> int h * int w - int L * int h = int (h * (w - L))"
  by (simp add: of_nat_diff algebra_simps)

lemma int_blocks:
  "L \<le> w \<Longrightarrow> L \<le> h \<Longrightarrow>
   2 * int h * int w - int L * (int h + int w) = int (h * (w - L) + w * (h - L))"
proof -
  assume "L \<le> w" "L \<le> h"
  then have "int (h * (w - L)) = int h * int w - int L * int h"
    "int (w * (h - L)) = int w * int h - int L * int w"
    by (simp_all add: int_block)
  then show ?thesis by (simp only: of_nat_add) (simp add: algebra_simps)
qed

lemma np_zeros_nat: "np_zeros (int n) = Inr (replicate n 0)"
  by (simp add: np_zeros_def)

lemma tv_step_closed:
  assumes wf: "wf_image u" and st: "stencil s L" and i: "i \<le> L"
    and h: "L < height u" and w: "L < width u"
    and len: "length ret = height u * (width u - L) + width u * (height u - L)"
  shows "tv_step s u (i, c) ret = Inr (tv_acc L u (i, c) ret)"
proof -
  let ?a = "height u * (width u - L)"
  let ?hb = "map ((*) c) (hblock L i u)" and ?vb = "map ((*) c) (vblock L i u)"
  have L: "length_s s = int L" "0 < L" using st by (simp_all add: stencil_def)
  have lh: "length ?hb = ?a" using length_hblock[OF wf i w] by simp
  have lv: "length ?vb = width u * (height u - L)" using length_vblock[OF wf i h] by simp
  have b: "int (height u) * int (width u) - int L * int (height u) = int ?a"
    using w by (simp add: int_block)
  have 1: "iadd_slice ret None (Some (int ?a)) ?hb = Inr (map2 (+) (take ?a ret) ?hb @ drop ?a ret)"
    using len lh by (intro iadd_slice_to_nat) simp_all
  let ?r1 = "map2 (+) (take ?a ret) ?hb @ drop ?a ret"
  have l1: "length ?r1 = length ret" using len lh by simp
  have 2: "iadd_slice ?r1 (Some (int ?a)) None ?vb = Inr (take ?a ?r1 @ map2 (+) (drop ?a ?r1) ?vb)"
    using len lv l1 by (intro iadd_slice_from_nat) simp_all
  have 3: "take ?a ?r1 @ map2 (+) (drop ?a ?r1) ?vb = map2 (+) ret (?hb @ ?vb)"
  proof -
    have "length (map2 (+) (take ?a ret) ?hb) = ?a" using len lh by simp
    then have "take ?a ?r1 = map2 (+) (take ?a ret) ?hb" "drop ?a ?r1 = drop ?a ret"
      by simp_all
    moreover have "map2 (+) ret (?hb @ ?vb) = map2 (+) (take ?a ret @ drop ?a ret) (?hb @ ?vb)"
      by simp
    moreover have "length (take ?a ret) = length ?hb" using len lh by simp
    ultimately show ?thesis by (simp only: zip_append map_append)
  qed
  have hp: "concat (map (slice None (Some (- length_s s))) (map (rotate i) (rows u))) = hblock L i u"
    using tv_hpart[OF wf L(2) i w] by (simp only: L)
  have vp: "concat (slice None (Some (- length_s s)) (rotate i (rows u))) = vblock L i u"
    using tv_vpart[OF wf L(2) i h] by (simp only: L)
  have b': "int (height u) * int (width u) - length_s s * int (height u) = int ?a"
    using b by (simp only: L)
  show ?thesis
    by (simp only: tv_step_def tv_acc_def Let_def prod.case hp vp b' 1 2 3 bindE_Inr map_append)
qed

lemma length_tv_acc:
  assumes "wf_image u" "i \<le> L" "L < height u" "L < width u"
    and "length ret = height u * (width u - L) + width u * (height u - L)"
  shows "length (tv_acc L u (i, c) ret) = length ret"
  using assms length_hblock[of u i L] length_vblock[of u i L] by (simp add: tv_acc_def)

lemma tv_closed:
  assumes wf: "wf_image u" and st: "stencil s L"
    and h: "L < height u" and w: "L < width u"
  shows "tv s u = Inr (fold (tv_acc L u) (enumerate 0 (coef s))
                         (replicate (height u * (width u - L) + width u * (height u - L)) 0))"
    and "length (fold (tv_acc L u) (enumerate 0 (coef s))
                         (replicate (height u * (width u - L) + width u * (height u - L)) 0))
         = height u * (width u - L) + width u * (height u - L)"
proof -
  let ?n = "height u * (width u - L) + width u * (height u - L)"
  let ?P = "\<lambda>ret::vec. length ret = ?n"
  have L: "length_s s = int L" "length (coef s) = Suc L" using st by (simp_all add: stencil_def)
  have step: "tv_step s u x t = Inr (tv_acc L u x t) \<and> ?P (tv_acc L u x t)"
    if "x \<in> set (enumerate 0 (coef s))" "?P t" for x t
  proof -
    obtain i c where x: "x = (i, c)" by (cases x)
    then have "i \<le> L" using that(1) L(2) in_enumerate[of i c "coef s"] by simp
    then show ?thesis
      using tv_step_closed[OF wf st _ h w that(2)] length_tv_acc[OF wf _ h w that(2)] that(2) x
      by simp
  qed
  have z: "np_zeros (2 * int (height u) * int (width u) - length_s s * (int (height u) + int (width u)))
           = Inr (replicate ?n 0)"
  proof -
    have "2 * int (height u) * int (width u) - length_s s * (int (height u) + int (width u)) = int ?n"
      using int_blocks[of L "width u" "height u"] h w by (simp only: L)
    then show ?thesis by (simp only: np_zeros_nat)
  qed
  from foldE_Inr[where P = ?P and f = "tv_step s u" and g = "tv_acc L u", OF step]
  have "foldE (tv_step s u) (enumerate 0 (coef s)) (replicate ?n 0)
          = Inr (fold (tv_acc L u) (enumerate 0 (coef s)) (replicate ?n 0))
        \<and> ?P (fold (tv_acc L u) (enumerate 0 (coef s)) (replicate ?n 0))"
    by simp
  then show "tv s u = Inr (fold (tv_acc L u) (enumerate 0 (coef s)) (replicate ?n 0))"
    and "length (fold (tv_acc L u) (enumerate 0 (coef s)) (replicate ?n 0)) = ?n"
    using z by (simp_all add: tv_def)
qed

lemma nth_concat_uniform:
  "\<forall>x\<in>set rs. length x = m \<Longrightarrow> r < length rs \<Longrightarrow> j < m \<Longrightarrow> concat rs ! (r * m + j) = rs ! r ! j"
proof (induction rs arbitrary: r)
  case Nil then show ?case by simp
next
  case (Cons x rs)
  show ?case
  proof (cases r)
    case 0 then show ?thesis using Cons.prems by (simp add: nth_append)
  next
    case (Suc r')
    then have "concat (x # rs) ! (r * m + j) = concat rs ! (r' * m + j)"
      using Cons.prems by (simp add: nth_append)
    then show ?thesis using Cons Suc by simp
  qed
qed

lemma nth_rows:
  assumes "wf_image u" "r < height u" "j < width u"
  shows "rows u ! r ! j = pixels u ! (r * width u + j)"
proof -
  have "Suc r * width u \<le> height u * width u" using assms(2) by (intro mult_le_mono1) simp
  then have "r * width u + j < length (pixels u)" using assms by (simp add: wf_image_def)
  then show ?thesis using assms by (simp add: rows_def)
qed

lemma nth_hblock:
  assumes wf: "wf_image u" and "i \<le> L" "L < width u" "r < height u" "j < width u - L"
  shows "hblock L i u ! (r * (width u - L) + j) = pixels u ! (r * width u + j + i)"
proof -
  let ?rs = "map (\<lambda>row. take (width u - L) (drop i row)) (rows u)"
  have "\<forall>x\<in>set ?rs. length x = width u - L"
    using assms rows_length[OF wf] by auto
  then have "concat ?rs ! (r * (width u - L) + j) = ?rs ! r ! j"
    using assms by (intro nth_concat_uniform) simp_all
  also have "\<dots> = rows u ! r ! (i + j)"
    using assms rows_length[OF wf, of "rows u ! r"] by simp
  also have "\<dots> = pixels u ! (r * width u + (i + j))"
    using assms by (intro nth_rows) simp_all
  finally show ?thesis by (simp add: hblock_def ac_simps)
qed

lemma nth_vblock:
  assumes "wf_image u" "i \<le> L" "L < height u" "k < width u * (height u - L)"
  shows "vblock L i u ! k = pixels u ! (width u * i + k)"
proof -
  have "(height u - L) + i \<le> height u" using assms by simp
  then have "width u * ((height u - L) + i) \<le> width u * height u"
    by (rule mult_le_mono2)
  then have "width u * (height u - L) + width u * i \<le> length (pixels u)"
    using assms(1) by (simp only: distrib_left wf_image_def mult.commute)
  then show ?thesis using assms by (simp add: vblock_def)
qed

lemma stencil_init:
  "init lam mi cf tolr epsr sat ext = Inr s \<Longrightarrow> 2 \<le> length cf \<Longrightarrow> stencil s (length cf - 1)"
  by (auto simp: init_def stencil_def)

lemma init_coef: "init lam mi cf tolr epsr sat ext = Inr s \<Longrightarrow> coef s = cf"
  by (auto simp: init_def)

subsection \<open>First differences\<close>

text \<open>
  Claim C3. For the coefficients \<open>[1, -1]\<close> and an image \<open>u\<close> with at least two rows and two
  columns, \<^verbatim>\<open>_tv(u)\<close> returns \<open>h * (w - 1) + w * (h - 1)\<close> entries: first, row after row, the
  differences \<open>u[i,j] - u[i,j+1]\<close> for \<open>j = 0..w-2\<close>, then the differences
  \<open>u[i,j] - u[i+1,j]\<close> for \<open>i = 0..h-2\<close>.
\<close>

theorem tv_first_differences:
  assumes s: "init lam mi [1, -1] tolr epsr sat ext = Inr s"
    and wf: "wf_image u" and h: "2 \<le> height u" and w: "2 \<le> width u"
  shows "\<exists>d. tv s u = Inr d
           \<and> length d = height u * (width u - 1) + width u * (height u - 1)
           \<and> (\<forall>i<height u. \<forall>j<width u - 1.
                 d ! (i * (width u - 1) + j)
                 = pixels u ! (i * width u + j) - pixels u ! (i * width u + (j + 1)))
           \<and> (\<forall>i<height u - 1. \<forall>j<width u.
                 d ! (height u * (width u - 1) + (i * width u + j))
                 = pixels u ! (i * width u + j) - pixels u ! ((i + 1) * width u + j))"
proof -
  let ?n = "height u * (width u - 1) + width u * (height u - 1)"
  let ?b = "\<lambda>i. hblock 1 i u @ vblock 1 i u"
  let ?d = "map2 (+) (map2 (+) (replicate ?n 0) (map ((*) 1) (?b 0))) (map ((*) (- 1)) (?b 1))"
  have st: "stencil s 1" using stencil_init[OF s] by simp
  have c: "coef s = [1, -1]" using init_coef[OF s] .
  have h1: "1 < height u" and w1: "1 < width u" using h w by simp_all
  have e: "enumerate 0 [1, - 1 :: real] = [(0, 1), (1, - 1)]" by (simp add: enumerate_eq_zip upt_rec)
  have tv: "tv s u = Inr ?d"
    using tv_closed(1)[OF wf st h1 w1] by (simp add: c e tv_acc_def)
  have lb: "length (?b i) = ?n" if "i \<le> 1" for i
    using length_hblock[OF wf that w1] length_vblock[OF wf that h1] by simp
  have ld: "length ?d = ?n" using lb[of 0] lb[of 1] by simp
  have nd: "?d ! k = ?b 0 ! k - ?b 1 ! k" if "k < ?n" for k
    using that lb[of 0] lb[of 1] by (simp del: map_append)
  have hor: "?d ! (i * (width u - 1) + j)
             = pixels u ! (i * width u + j) - pixels u ! (i * width u + (j + 1))"
    if "i < height u" "j < width u - 1" for i j
  proof -
    have "Suc i * (width u - 1) \<le> height u * (width u - 1)"
      using that(1) by (intro mult_le_mono1) simp
    then have k: "i * (width u - 1) + j < height u * (width u - 1)" using that(2) by simp
    then have "?d ! (i * (width u - 1) + j)
               = ?b 0 ! (i * (width u - 1) + j) - ?b 1 ! (i * (width u - 1) + j)"
      by (intro nd) simp
    also have "\<dots> = hblock 1 0 u ! (i * (width u - 1) + j) - hblock 1 1 u ! (i * (width u - 1) + j)"
      using k length_hblock[OF wf _ w1, of 0] length_hblock[OF wf _ w1, of 1]
      by (simp add: nth_append)
    finally show ?thesis
      using nth_hblock[OF wf _ w1 that, of 0] nth_hblock[OF wf _ w1 that, of 1] by simp
  qed
  have ver: "?d ! (height u * (width u - 1) + (i * width u + j))
             = pixels u ! (i * width u + j) - pixels u ! ((i + 1) * width u + j)"
    if "i < height u - 1" "j < width u" for i j
  proof -
    have "Suc i * width u \<le> (height u - 1) * width u"
      using that(1) by (intro mult_le_mono1) simp
    then have k: "i * width u + j < width u * (height u - 1)"
      using that(2) by (simp add: mult.commute)
    then have "?d ! (height u * (width u - 1) + (i * width u + j))
               = ?b 0 ! (height u * (width u - 1) + (i * width u + j))
                 - ?b 1 ! (height u * (width u - 1) + (i * width u + j))"
      by (intro nd) simp
    also have "\<dots> = vblock 1 0 u ! (i * width u + j) - vblock 1 1 u ! (i * width u + j)"
      using length_hblock[OF wf _ w1, of 0] length_hblock[OF wf _ w1, of 1]
      by (simp add: nth_append)
    finally show ?thesis
      using nth_vblock[OF wf _ h1 k, of 0] nth_vblock[OF wf _ h1 k, of 1]
      by (simp add: add.commute add.left_commute)
  qed
  show ?thesis using tv ld hor ver by blast
qed

theorem tv_first_differences_witness:
  "init 1 1000 [1, - 1] (1 / 1000) (1 / 10 ^ 16) False False
     = Inr \<lparr>lambd = 1, max_iter = 1000, coef = [1, - 1], tol = 1 / 1000, eps = 1 / 10 ^ 16,
            saturation = False, extended_output = False, length_s = 1\<rparr>
   \<and> wf_image \<lparr>height = 3, width = 3, pixels = [1, 2, 4, 8, 16, 32, 64, 128, 256]\<rparr>
   \<and> (\<exists>d. tv \<lparr>lambd = 1, max_iter = 1000, coef = [1, - 1], tol = 1 / 1000, eps = 1 / 10 ^ 16,
                 saturation = False, extended_output = False, length_s = 1\<rparr>
               \<lparr>height = 3, width = 3, pixels = [1, 2, 4, 8, 16, 32, 64, 128, 256]\<rparr> = Inr d
          \<and> length d = 12 \<and> d ! 0 = - 1 \<and> d ! 6 = - 7)"
proof -
  let ?s = "\<lparr>lambd = 1, max_iter = 1000, coef = [1, - 1], tol = 1 / 1000, eps = 1 / 10 ^ 16,
            saturation = False, extended_output = False, length_s = 1\<rparr>"
  let ?u = "\<lparr>height = 3, width = 3, pixels = [1, 2, 4, 8, 16, 32, 64, 128, 256 :: real]\<rparr>"
  have i: "init 1 1000 [1, - 1] (1 / 1000) (1 / 10 ^ 16) False False = Inr ?s"
    by (simp add: init_def)
  have wf: "wf_image ?u" by (simp add: wf_image_def)
  from tv_first_differences[OF i wf]
  obtain d where d: "tv ?s ?u = Inr d" "length d = 12"
    and hor: "\<forall>i<3. \<forall>j<2. d ! (i * 2 + j) = pixels ?u ! (i * 3 + j) - pixels ?u ! (i * 3 + (j + 1))"
    and ver: "\<forall>i<2. \<forall>j<3. d ! (6 + (i * 3 + j)) = pixels ?u ! (i * 3 + j) - pixels ?u ! ((i + 1) * 3 + j)"
    by auto
  from hor have "d ! (0 * 2 + 0) = pixels ?u ! (0 * 3 + 0) - pixels ?u ! (0 * 3 + (0 + 1))"
    by (meson zero_less_numeral)
  then have h0: "d ! 0 = - 1" by simp
  from ver have "d ! (6 + (0 * 3 + 0)) = pixels ?u ! (0 * 3 + 0) - pixels ?u ! ((0 + 1) * 3 + 0)"
    by (meson zero_less_numeral)
  then have v0: "d ! 6 = - 7" by simp
  show ?thesis using i wf d h0 v0 by blast
qed

section \<open>The adjoint operator on admissible shapes\<close>

lemma foldE_append: "foldE f (xs @ ys) t = bindE (foldE f xs t) (foldE f ys)"
  by (induction xs arbitrary: t) (auto simp: bindE_def split: sum.splits)

lemma length_pad_rows:
  "length xs = h * m \<Longrightarrow> length (pad_rows k m h xs) = h * m + (h - 1) * k"
  by (induction k m h xs rule: pad_rows.induct) auto

lemma pad_rows_0: "length xs = h * m \<Longrightarrow> pad_rows 0 m h xs = xs"
proof (induction "0::nat" m h xs rule: pad_rows.induct)
  case (3 m n xs)
  then have "pad_rows 0 m (Suc n) (drop m xs) = drop m xs" by simp
  then show ?case by simp
qed auto

lemma insert_at_pad_rows:
  "length xs = h * m \<Longrightarrow>
   insert_at (t * (m + k)) (map (\<lambda>j. j * (m + k)) [Suc t..<t + h]) 0 (pad_rows k m h xs)
   = pad_rows (Suc k) m h xs"
proof (induction k m h xs arbitrary: t rule: pad_rows.induct)
  case (1 k m xs) then show ?case by simp
next
  case (2 k m xs) then show ?case by simp
next
  case (3 k m n xs)
  have u: "[Suc t..<t + Suc (Suc n)] = Suc t # [Suc (Suc t)..<Suc t + Suc n]"
    by (simp add: upt_rec)
  have ih: "insert_at (Suc t * (m + k)) (map (\<lambda>j. j * (m + k)) [Suc (Suc t)..<Suc t + Suc n]) 0
              (pad_rows k m (Suc n) (drop m xs)) = pad_rows (Suc k) m (Suc n) (drop m xs)"
    using "3.prems" by (intro "3.IH") simp
  have d: "Suc t * (m + k) - t * (m + k) = m + k" by simp
  have l: "length (take m xs @ replicate k (0::real)) = m + k" using "3.prems" by simp
  have "insert_at (t * (m + k)) (map (\<lambda>j. j * (m + k)) [Suc t..<t + Suc (Suc n)]) 0
          (pad_rows k m (Suc (Suc n)) xs)
        = take (m + k) ((take m xs @ replicate k 0) @ pad_rows k m (Suc n) (drop m xs))
          @ 0 # insert_at (Suc t * (m + k)) (map (\<lambda>j. j * (m + k)) [Suc (Suc t)..<Suc t + Suc n]) 0
                 (drop (m + k) ((take m xs @ replicate k 0) @ pad_rows k m (Suc n) (drop m xs)))"
    unfolding u by (simp only: list.map insert_at.simps d pad_rows.simps append_assoc)
  also have "\<dots> = (take m xs @ replicate k 0) @ 0 # pad_rows (Suc k) m (Suc n) (drop m xs)"
    using l ih by (simp only: take_append drop_append) simp
  also have "\<dots> = pad_rows (Suc k) m (Suc (Suc n)) xs"
    by (simp add: replicate_append_same)
  finally show ?case .
qed

lemma np_insert_pad_rows:
  assumes len: "length xs = h * m" and h: "0 < h"
  shows "np_insert (pad_rows k m h xs) (map (\<lambda>j. int j * int (m + k)) [1..<h]) 0
         = Inr (pad_rows (Suc k) m h xs)"
proof -
  let ?idx = "map (\<lambda>j. int j * int (m + k)) [1..<h]"
  let ?n = "int (length (pad_rows k m h xs))"
  have bound: "j * (m + k) \<le> length (pad_rows k m h xs)" if "j < h" for j
  proof -
    have "j * (m + k) \<le> (h - 1) * (m + k)" using that by (intro mult_le_mono1) simp
    also have "\<dots> \<le> h * m + (h - 1) * k" by (simp add: algebra_simps diff_mult_distrib)
    finally show ?thesis using length_pad_rows[OF len] by simp
  qed
  have ok: "\<not> list_ex (\<lambda>i. i < - ?n \<or> ?n < i) ?idx"
  proof -
    have "\<not> (int j * int (m + k) < - ?n \<or> ?n < int j * int (m + k))" if "j < h" for j
    proof -
      have c: "int (j * (m + k)) \<le> ?n" using bound[OF that] by (simp only: of_nat_le_iff)
      have a: "(0::int) \<le> int (j * (m + k))" and b: "(0::int) \<le> ?n"
        by (rule of_nat_0_le_iff)+
      have e: "int j * int (m + k) = int (j * (m + k))" by simp
      show ?thesis unfolding e using a b c by linarith
    qed
    then show ?thesis by (auto simp: list_ex_iff)
  qed
  have nat: "map (\<lambda>i. nat (if i < 0 then i + ?n else i)) ?idx = map (\<lambda>j. j * (m + k)) [1..<h]"
  proof -
    have r: "nat (if int j * int (m + k) < 0 then int j * int (m + k) + ?n else int j * int (m + k))
          = j * (m + k)" for j
    proof -
      have "int j * int (m + k) = int (j * (m + k))" by simp
      then show ?thesis by (simp only: of_nat_less_0_iff if_False nat_int)
    qed
    show ?thesis by (simp only: map_map comp_def r)
  qed
  have srt: "sort (map (\<lambda>j. j * (m + k)) [1..<h]) = map (\<lambda>j. j * (m + k)) [1..<h]"
  proof -
    have "sorted (map (\<lambda>j. j * (m + k)) [1..<h])"
      by (intro sorted_map_same monoI sorted_upt | simp add: sorted_map sorted_wrt_iff_nth_less)+
    then show ?thesis by (rule sorted_sort_id)
  qed
  have "insert_at 0 (map (\<lambda>j. j * (m + k)) [1..<h]) 0 (pad_rows k m h xs) = pad_rows (Suc k) m h xs"
    using insert_at_pad_rows[OF len, of 0 k] by simp
  then show ?thesis
    using ok by (simp only: np_insert_def Let_def nat srt if_False)
qed

lemma insert_zeros_closed:
  assumes st: "stencil s L" and w: "L < w" and h: "0 < h" and len: "h * (w - L) \<le> length v"
  shows "insert_zeros s v (h, w) = Inr (pad_rows L (w - L) h (take (h * (w - L)) v))"
proof -
  let ?m = "w - L" and ?vh = "take (h * (w - L)) v"
  let ?f = "\<lambda>i v0. np_insert v0 (map (\<lambda>j. int j * (int w - length_s s + int i)) [1..<h]) 0"
  have L: "length_s s = int L" using st by (simp add: stencil_def)
  have lv: "length ?vh = h * ?m" using len by simp
  have f: "?f i (pad_rows i ?m h ?vh) = Inr (pad_rows (Suc i) ?m h ?vh)" for i
  proof -
    have "int w - length_s s + int i = int (?m + i)" using w L by simp
    then show ?thesis using np_insert_pad_rows[OF lv h, of i] by (simp only:)
  qed
  have loop: "foldE ?f [0..<k] ?vh = Inr (pad_rows k ?m h ?vh)" for k
  proof (induction k)
    case 0 then show ?case using pad_rows_0[OF lv] by simp
  next
    case (Suc k)
    have "foldE ?f [0..<Suc k] ?vh = bindE (foldE ?f [0..<k] ?vh) (foldE ?f [k])"
      by (simp only: upt_Suc_append[OF le0] foldE_append)
    also have "\<dots> = bindE (?f k (pad_rows k ?m h ?vh)) Inr"
      by (simp only: Suc bindE_Inr foldE.simps) (simp add: bindE_def split: sum.splits)
    also have "\<dots> = Inr (pad_rows (Suc k) ?m h ?vh)"
      by (simp only: f bindE_Inr)
    finally show ?case .
  qed
  have i1: "int h * (int w - int L) = int (h * ?m)" using w by (simp add: of_nat_diff)
  have "slice None (Some (int h * (int w - int L))) v = ?vh"
    by (simp only: i1 slice_to_nat)
  then show ?thesis
    unfolding insert_zeros_def prod.case Let_def L nat_int
    using loop[of L] unfolding L by (simp only:)
qed

lemma map2_add_zeros: "length ys = n \<Longrightarrow> map2 (+) ys (map ((*) c) (replicate n (0::real))) = ys"
  by (induction ys arbitrary: n) auto

lemma length_embed_at: "k + length xs \<le> n \<Longrightarrow> length (embed_at n k xs) = n"
  by (simp add: embed_at_def)

lemma iadd_slice_embed_at:
  assumes "k + length xs \<le> length ret"
  shows "iadd_slice ret (Some (int k)) (Some (int k + int (length xs))) (map ((*) c) xs)
         = Inr (map2 (+) ret (map ((*) c) (embed_at (length ret) k xs)))"
proof -
  let ?n = "length xs"
  let ?a = "take k ret" and ?b = "take ?n (drop k ret)" and ?c = "drop (k + ?n) ret"
  have split: "ret = ?a @ ?b @ ?c"
    by (metis append_take_drop_id drop_drop add.commute)
  have lens: "length ?a = k" "length ?b = ?n" "length ?c = length ret - k - ?n"
    using assms by simp_all
  have "map2 (+) ret (map ((*) c) (embed_at (length ret) k xs))
        = map2 (+) (?a @ ?b @ ?c)
            (map ((*) c) (replicate k 0) @ map ((*) c) xs @ map ((*) c) (replicate (length ret - k - ?n) 0))"
    using split by (simp add: embed_at_def)
  also have "\<dots> = map2 (+) ?a (map ((*) c) (replicate k 0)) @ map2 (+) ?b (map ((*) c) xs)
                  @ map2 (+) ?c (map ((*) c) (replicate (length ret - k - ?n) 0))"
    using lens by (simp only: zip_append map_append length_map length_replicate)
  also have "\<dots> = ?a @ map2 (+) ?b (map ((*) c) xs) @ ?c"
    using lens by (simp only: map2_add_zeros)
  finally have e: "map2 (+) ret (map ((*) c) (embed_at (length ret) k xs))
                   = ?a @ map2 (+) ?b (map ((*) c) xs) @ ?c" .
  have "iadd_slice ret (Some (int k)) (Some (int (k + ?n))) (map ((*) c) xs)
        = Inr (take k ret @ map2 (+) (take (k + ?n - k) (drop k ret)) (map ((*) c) xs) @ drop (k + ?n) ret)"
    using assms by (intro iadd_slice_nat) simp_all
  then show ?thesis using e by (simp only: of_nat_add) simp
qed

lemma length_pad_rows_full:
  assumes "length xs = h * (w - L)" "0 < h" "L \<le> w"
  shows "length (pad_rows L (w - L) h xs) = h * w - L"
proof -
  obtain h' where h': "h = Suc h'" using assms(2) by (cases h) auto
  have "(w - L) + L = w" using assms(3) by simp
  then have "h' * ((w - L) + L) = h' * w" by simp
  then have "h' * (w - L) + h' * L = h' * w" by (simp only: distrib_left)
  then have "h * (w - L) + (h - 1) * L = h * w - L"
    using assms(3) unfolding h' by simp
  then show ?thesis using length_pad_rows[OF assms(1), of L] by simp
qed

lemma vshift_bound:
  assumes "i \<le> L" "L < h"
  shows "w * i + w * (h - L) \<le> h * (w::nat)"
proof -
  have "i + (h - L) \<le> h" using assms by simp
  then have "w * (i + (h - L)) \<le> w * h" by (rule mult_le_mono2)
  then show ?thesis by (simp only: distrib_left mult.commute)
qed

lemma transposed_tv_step_closed:
  assumes st: "stencil s L" and i: "i \<le> L" and h: "L < h" and w: "L < w"
    and lv: "length v = h * (w - L) + w * (h - L)"
    and lr: "length ret = h * w"
  shows "transposed_tv_step s v (h, w) (pad_rows L (w - L) h (take (h * (w - L)) v)) (i, c) ret
         = Inr (transposed_tv_acc L h w v (i, c) ret)"
    and "length (transposed_tv_acc L h w v (i, c) ret) = h * w"
proof -
  let ?v0 = "pad_rows L (w - L) h (take (h * (w - L)) v)"
  let ?vv = "drop (h * (w - L)) v"
  have L: "length_s s = int L" using st by (simp add: stencil_def)
  have l0: "length ?v0 = h * w - L"
    using lv h w by (intro length_pad_rows_full) simp_all
  have "L \<le> h * w" using h w by (metis less_imp_le_nat mult_le_mono mult.commute le_trans  le_square mult_le_mono1 nat_le_linear)
  then have b0: "i + length ?v0 \<le> length ret" using l0 lr i by simp
  have lvv: "length ?vv = w * (h - L)" using lv by simp
  have b1: "w * i + length ?vv \<le> h * w" using vshift_bound[OF i h, of w] lvv by simp
  let ?r1 = "map2 (+) ret (map ((*) c) (embed_at (h * w) i ?v0))"
  have s1: "iadd_slice ret (Some (int i)) (Some (int i + int (length ?v0))) (map ((*) c) ?v0) = Inr ?r1"
    using iadd_slice_embed_at[OF b0, of c] by (simp only: lr)
  have l1: "length ?r1 = h * w" using length_embed_at[of i ?v0 "h * w"] b0 lr by simp
  have i1: "int h * (int w - int L) = int (h * (w - L))" using w by (simp add: of_nat_diff)
  have i2: "int w * (int h - int L) = int (length ?vv)" using h lvv by (simp add: of_nat_diff)
  have i3: "int w * int i = int (w * i)" by simp
  have sl: "slice (Some (int h * (int w - int L))) None v = ?vv"
    by (simp only: i1 slice_from_nat)
  have s2: "iadd_slice ?r1 (Some (int (w * i))) (Some (int (w * i) + int (length ?vv))) (map ((*) c) ?vv)
            = Inr (map2 (+) ?r1 (map ((*) c) (embed_at (h * w) (w * i) ?vv)))"
    using iadd_slice_embed_at[of "w * i" ?vv ?r1 c, unfolded l1, OF b1] .
  show "transposed_tv_step s v (h, w) ?v0 (i, c) ret = Inr (transposed_tv_acc L h w v (i, c) ret)"
    by (simp only: transposed_tv_step_def transposed_tv_acc_def prod.case Let_def L s1 bindE_Inr
          sl i2 i3 s2)
  show "length (transposed_tv_acc L h w v (i, c) ret) = h * w"
    using l1 length_embed_at[of "w * i" ?vv "h * w"] b1 by (simp add: transposed_tv_acc_def)
qed

lemma transposed_tv_closed:
  assumes st: "stencil s L" and h: "L < h" and w: "L < w"
    and lv: "length v = h * (w - L) + w * (h - L)"
  shows "transposed_tv s v (h, w)
         = Inr (fold (transposed_tv_acc L h w v) (enumerate 0 (coef s)) (replicate (h * w) 0))"
    and "length (fold (transposed_tv_acc L h w v) (enumerate 0 (coef s)) (replicate (h * w) 0)) = h * w"
proof -
  let ?P = "\<lambda>ret::vec. length ret = h * w"
  let ?v0 = "pad_rows L (w - L) h (take (h * (w - L)) v)"
  have lc: "length (coef s) = Suc L" using st by (simp add: stencil_def)
  have iz: "insert_zeros s v (h, w) = Inr ?v0"
    using h lv by (intro insert_zeros_closed[OF st w]) simp_all
  have step: "transposed_tv_step s v (h, w) ?v0 x t = Inr (transposed_tv_acc L h w v x t)
              \<and> ?P (transposed_tv_acc L h w v x t)"
    if "x \<in> set (enumerate 0 (coef s))" "?P t" for x t
  proof -
    obtain i c where x: "x = (i, c)" by (cases x)
    then have "i \<le> L" using that(1) lc in_enumerate[of i c "coef s"] by simp
    then show ?thesis
      using transposed_tv_step_closed[OF st _ h w lv that(2)] x by simp
  qed
  from foldE_Inr[where P = ?P and f = "transposed_tv_step s v (h, w) ?v0"
        and g = "transposed_tv_acc L h w v", OF step]
  have "foldE (transposed_tv_step s v (h, w) ?v0) (enumerate 0 (coef s)) (replicate (h * w) 0)
          = Inr (fold (transposed_tv_acc L h w v) (enumerate 0 (coef s)) (replicate (h * w) 0))
        \<and> ?P (fold (transposed_tv_acc L h w v) (enumerate 0 (coef s)) (replicate (h * w) 0))"
    by simp
  then show "transposed_tv s v (h, w)
         = Inr (fold (transposed_tv_acc L h w v) (enumerate 0 (coef s)) (replicate (h * w) 0))"
    and "length (fold (transposed_tv_acc L h w v) (enumerate 0 (coef s)) (replicate (h * w) 0)) = h * w"
    by (simp_all add: transposed_tv_def iz)
qed

section \<open>Inner products\<close>

lemma dot_Nil [simp]: "dot [] ys = 0" "dot xs [] = 0"
  by (simp_all add: dot_def)

lemma dot_Cons [simp]: "dot (x # xs) (y # ys) = x * y + dot xs ys"
  by (simp add: dot_def)



lemma dot_zeros [simp]: "dot xs (replicate n 0) = 0"
proof (induction xs arbitrary: n)
  case Nil then show ?case by simp
next
  case (Cons x xs) then show ?case by (cases n) simp_all
qed













lemma length_from_int:
  assumes "L < h" "L < w" "int n = 2 * int h * int w - int L * (int h + int w)"
  shows "n = h * (w - L) + w * (h - L)"
proof -
  have "int n = int (h * (w - L) + w * (h - L))"
    using int_blocks[of L w h] assms by simp
  then show ?thesis by (simp only: of_nat_eq_iff)
qed

subsection \<open>The adjoint identity\<close>



section \<open>The step sizes on admissible shapes\<close>

lemma map2_add_embed_at:
  assumes "k + length xs \<le> length ret"
  shows "map2 (+) ret (map ((*) c) (embed_at (length ret) k xs))
         = take k ret @ map2 (+) (take (length xs) (drop k ret)) (map ((*) c) xs)
           @ drop (k + length xs) ret"
proof -
  let ?n = "length xs"
  let ?a = "take k ret" and ?b = "take ?n (drop k ret)" and ?c = "drop (k + ?n) ret"
  have split: "ret = ?a @ ?b @ ?c"
    by (metis append_take_drop_id drop_drop add.commute)
  have lens: "length ?a = k" "length ?b = ?n" "length ?c = length ret - k - ?n"
    using assms by simp_all
  have "map2 (+) ret (map ((*) c) (embed_at (length ret) k xs))
        = map2 (+) (?a @ ?b @ ?c)
            (map ((*) c) (replicate k 0) @ map ((*) c) xs @ map ((*) c) (replicate (length ret - k - ?n) 0))"
    using split by (simp add: embed_at_def)
  also have "\<dots> = map2 (+) ?a (map ((*) c) (replicate k 0)) @ map2 (+) ?b (map ((*) c) xs)
                  @ map2 (+) ?c (map ((*) c) (replicate (length ret - k - ?n) 0))"
    using lens by (simp only: zip_append map_append length_map length_replicate)
  also have "\<dots> = ?a @ map2 (+) ?b (map ((*) c) xs) @ ?c"
    using lens by (simp only: map2_add_zeros)
  finally show ?thesis .
qed

lemma map2_add_const:
  "length zs = n \<Longrightarrow> map2 (+) zs (map ((*) (c::real)) (replicate n 1)) = map (\<lambda>x. x + c) zs"
  by (induction zs arbitrary: n) auto

lemma iadd_slice_scalar_embed_at:
  assumes "k + n \<le> length xs"
  shows "iadd_slice_scalar xs (Some (int k)) (Some (int k + int n)) c
         = map2 (+) xs (map ((*) c) (embed_at (length xs) k (replicate n 1)))"
proof -
  have b: "slice_bounds (length xs) (Some (int k)) (Some (int (k + n))) = (k, k + n)"
    using assms by (simp add: slice_bounds_def clamp_index_def Let_def min_def max_def nat_add_distrib)
  have "iadd_slice_scalar xs (Some (int k)) (Some (int (k + n))) c
        = take k xs @ map (\<lambda>x. x + c) (take n (drop k xs)) @ drop (k + n) xs"
    by (simp only: iadd_slice_scalar_def b prod.case) simp
  moreover have "map2 (+) xs (map ((*) c) (embed_at (length xs) k (replicate n 1)))
        = take k xs @ map2 (+) (take n (drop k xs)) (map ((*) c) (replicate n 1)) @ drop (k + n) xs"
    using map2_add_embed_at[of k "replicate n 1" xs c] assms by simp
  moreover have "map2 (+) (take n (drop k xs)) (map ((*) c) (replicate n 1))
                 = map (\<lambda>x. x + c) (take n (drop k xs))"
    using assms by (intro map2_add_const) simp
  ultimately show ?thesis by (simp only: of_nat_add)
qed

lemma iadd_slice_embed_at_plain:
  assumes "k + length xs \<le> length ret"
  shows "iadd_slice ret (Some (int k)) (Some (int k + int (length xs))) xs
         = Inr (map2 (+) ret (embed_at (length ret) k xs))"
proof -
  have "map ((*) 1) xs = xs" "map ((*) 1) (embed_at (length ret) k xs) = embed_at (length ret) k xs"
    by (simp_all add: map_idI)
  then show ?thesis using iadd_slice_embed_at[OF assms, of 1] by simp
qed

lemma tile_loop:
  assumes L: "L < w" and la: "length a = Suc L"
  shows "foldE (\<lambda>i tile. iadd_slice tile (Some (int i)) (Some (int i + int L + 1)) a)
           [0..<w - L] (replicate w 0) = Inr (tile_of w L a)"
    and "length (tile_of w L a) = w"
proof -
  let ?f = "\<lambda>i tile. iadd_slice tile (Some (int i)) (Some (int i + int L + 1)) a"
  let ?g = "\<lambda>i t. map2 (+) t (embed_at w i a)"
  let ?P = "\<lambda>t::vec. length t = w"
  have step: "?f i t = Inr (?g i t) \<and> ?P (?g i t)" if "i \<in> set [0..<w - L]" "?P t" for i t
  proof -
    have b: "i + length a \<le> length t" using that la L by simp
    have "int i + int L + 1 = int i + int (length a)" using la by simp
    then have "?f i t = Inr (map2 (+) t (embed_at (length t) i a))"
      using iadd_slice_embed_at_plain[OF b] by (simp only:)
    then show ?thesis using that(2) length_embed_at[of i a w] b by simp
  qed
  from foldE_Inr[where P = ?P and f = ?f and g = ?g, OF step, of "[0..<w - L]" "replicate w 0"]
  show "foldE ?f [0..<w - L] (replicate w 0) = Inr (tile_of w L a)" "length (tile_of w L a) = w"
    by (simp_all add: tile_of_def)
qed

lemma fold_cong_inv:
  assumes "\<And>x t. x \<in> set xs \<Longrightarrow> P t \<Longrightarrow> f x t = g x t \<and> P (g x t)" and "P t"
  shows "fold f xs t = fold g xs t \<and> P (fold g xs t)"
  using assms by (induction xs arbitrary: t) auto

lemma iadd_slice_all:
  "length ys = length xs \<Longrightarrow> iadd_slice xs None None ys = Inr (map2 (+) xs ys)"
  by (simp add: iadd_slice_def slice_bounds_def broadcast_to_def)

lemma sigma_first:
  assumes "0 < k"
  shows "iadd_slice_scalar (replicate (n + k) 0) None (Some (- int k)) a
         = replicate n a @ replicate k 0"
proof -
  have "slice_bounds (n + k) None (Some (- int k)) = (0, n)"
    using assms by (simp add: slice_bounds_def clamp_index_def Let_def)
  then show ?thesis
    by (simp add: iadd_slice_scalar_def replicate_add)
qed

lemma sigma_second:
  assumes "0 < k"
  shows "iadd_slice_scalar (replicate n a @ replicate k 0) (Some (- int k)) None b
         = replicate n a @ replicate k b"
proof -
  have "slice_bounds (n + k) (Some (- int k)) None = (n, n + k)"
    using assms by (simp add: slice_bounds_def clamp_index_def Let_def)
  then show ?thesis
    by (simp add: iadd_slice_scalar_def)
qed

lemma length_tau_acc:
  assumes "i \<le> L" "L < h" "length t = h * w"
  shows "length (tau_acc L h w (i, c) t) = h * w"
  using assms vshift_bound[OF assms(1,2), of w] length_embed_at[of "w * i" "replicate (w * (h - L)) 1" "h * w"]
  by (simp add: tau_acc_def)

lemma length_tau_sums:
  assumes st: "stencil s L" and h: "L < h" and w: "L < w"
  shows "length (tau_sums s L h w) = h * w"
proof -
  let ?a = "map abs (coef s)"
  let ?P = "\<lambda>t::vec. length t = h * w"
  have la: "length ?a = Suc L" using st by (simp add: stencil_def)
  have lt: "length (tile_of w L ?a) = w" using tile_loop(2)[OF w la] .
  have l1: "?P (map2 (+) (replicate (h * w) (lambd s)) (concat (replicate h (tile_of w L ?a))))"
    using lt by (simp add: length_concat sum_list_replicate)
  have step: "tau_acc L h w x t = tau_acc L h w x t \<and> ?P (tau_acc L h w x t)"
    if "x \<in> set (enumerate 0 ?a)" "?P t" for x t
  proof -
    obtain i c where x: "x = (i, c)" by (cases x)
    then have "i \<le> L" using that(1) la in_enumerate[of i c ?a] by simp
    then show ?thesis using length_tau_acc[OF _ h that(2)] x by simp
  qed
  from fold_cong_inv[where P = ?P, OF step l1] show ?thesis by (simp add: tau_sums_def)
qed

lemma step_size_closed:
  assumes st: "stencil s L" and h: "L < h" and w: "L < w"
  shows "step_size s (h, w)
         = bindE (np_reciprocal (tau_sums s L h w))
             (\<lambda>tau. bindE (np_reciprocal (sigma_sums s L h w)) (\<lambda>sigma. Inr (tau, sigma)))"
proof -
  let ?a = "map abs (coef s)"
  let ?n = "h * (w - L) + w * (h - L)"
  let ?P = "\<lambda>t::vec. length t = h * w"
  let ?tau1 = "map2 (+) (replicate (h * w) (lambd s)) (concat (replicate h (tile_of w L ?a)))"
  let ?f = "\<lambda>(i, c) tau. iadd_slice_scalar tau (Some (int w * int i))
                         (Some (int w * int i + int w * (int h - int L))) c"
  have L: "length_s s = int L" and la: "length ?a = Suc L" using st by (simp_all add: stencil_def)
  have hw: "0 < h * w" using h w by simp
  have n1: "nat (int w - int L) = w - L" by simp
  have tile: "foldE (\<lambda>i tile. iadd_slice tile (Some (int i)) (Some (int i + int L + 1)) ?a)
                [0..<w - L] (replicate w 0) = Inr (tile_of w L ?a)"
    and lt: "length (tile_of w L ?a) = w"
    using tile_loop[OF w la] by simp_all
  have t1: "iadd_slice (replicate (h * w) (lambd s)) None None (concat (replicate h (tile_of w L ?a)))
            = Inr ?tau1"
    using lt by (intro iadd_slice_all) (simp add: length_concat sum_list_replicate)
  have l1: "?P ?tau1" using lt by (simp add: length_concat sum_list_replicate)
  have i2: "int w * (int h - int L) = int (w * (h - L))" using h by (simp add: of_nat_diff)
  have step: "?f x t = tau_acc L h w x t \<and> ?P (tau_acc L h w x t)"
    if "x \<in> set (enumerate 0 ?a)" "?P t" for x t
  proof -
    obtain i c where x: "x = (i, c)" by (cases x)
    then have i: "i \<le> L" using that(1) la in_enumerate[of i c ?a] by simp
    have b: "w * i + w * (h - L) \<le> length t" using vshift_bound[OF i h, of w] that(2) by simp
    have "int w * int i = int (w * i)" by simp
    then have "?f x t = iadd_slice_scalar t (Some (int (w * i))) (Some (int (w * i) + int (w * (h - L)))) c"
      unfolding x prod.case i2 by (simp only:)
    also have "\<dots> = tau_acc L h w x t"
      using iadd_slice_scalar_embed_at[OF b, of c] that(2) by (simp add: tau_acc_def x)
    finally show ?thesis using length_tau_acc[OF i h that(2)] x by simp
  qed
  have t2: "fold ?f (enumerate 0 ?a) ?tau1 = tau_sums s L h w"
    using fold_cong_inv[where P = ?P and f = ?f and g = "tau_acc L h w", OF step l1]
    by (simp add: tau_sums_def)
  have z: "np_zeros (3 * int (h * w) - int L * (int h + int w)) = Inr (replicate (?n + h * w) 0)"
  proof -
    have "3 * int (h * w) - int L * (int h + int w)
          = (2 * int h * int w - int L * (int h + int w)) + int (h * w)" by simp
    also have "\<dots> = int (?n + h * w)"
      using int_blocks[of L w h] h w by (simp only: of_nat_add)
    finally show ?thesis by (simp only: np_zeros_nat)
  qed
  have sg: "iadd_slice_scalar
              (iadd_slice_scalar (replicate (?n + h * w) 0) None (Some (- int (h * w)))
                 (sum_list ?a))
              (Some (- int (h * w))) None (lambd s) = sigma_sums s L h w"
    using hw by (simp only: sigma_first sigma_second sigma_sums_def)
  show ?thesis
    by (simp only: step_size_def prod.case Let_def L n1 tile bindE_Inr t1 t2 z sg)
qed

lemma map2_add_ge:
  assumes "\<forall>x\<in>set xs. l \<le> x" "\<forall>y\<in>set ys. (0::real) \<le> y"
  shows "\<forall>z\<in>set (map2 (+) xs ys). l \<le> z"
proof
  fix z assume "z \<in> set (map2 (+) xs ys)"
  then obtain x y where "(x, y) \<in> set (zip xs ys)" "z = x + y" by auto
  then have "x \<in> set xs" "y \<in> set ys" "z = x + y" by (auto dest: set_zip_leftD set_zip_rightD)
  then show "l \<le> z" using assms by fastforce
qed

lemma embed_at_nonneg: "\<forall>x\<in>set xs. 0 \<le> x \<Longrightarrow> \<forall>x\<in>set (embed_at n k xs). 0 \<le> x"
  by (auto simp: embed_at_def)

lemma tile_of_nonneg:
  assumes "\<forall>x\<in>set a. 0 \<le> x"
  shows "\<forall>x\<in>set (tile_of w L a). 0 \<le> x"
proof -
  have 1: "\<forall>x\<in>set (fold (\<lambda>i t. map2 (+) t (embed_at w i a)) is t). 0 \<le> x"
    if "\<forall>x\<in>set t. 0 \<le> x" for "is" t
    using that
  proof (induction "is" arbitrary: t)
    case Nil then show ?case by simp
  next
    case (Cons i "is")
    have "\<forall>z\<in>set (map2 (+) t (embed_at w i a)). 0 \<le> z"
      using Cons.prems embed_at_nonneg[OF assms] by (intro map2_add_ge) simp_all
    from Cons.IH[OF this] show ?case by simp
  qed
  have "\<forall>x\<in>set (replicate w (0::real)). 0 \<le> x" by simp
  from 1[OF this] show ?thesis unfolding tile_of_def .
qed

lemma tau_sums_ge: "\<forall>x\<in>set (tau_sums s L h w). lambd s \<le> x"
proof -
  let ?a = "map abs (coef s)"
  have a: "\<forall>x\<in>set ?a. 0 \<le> x" by simp
  have "\<forall>y\<in>set (concat (replicate h (tile_of w L ?a))). 0 \<le> y"
    using tile_of_nonneg[OF a] by auto
  then have 1: "\<forall>x\<in>set (map2 (+) (replicate (h * w) (lambd s)) (concat (replicate h (tile_of w L ?a)))).
                  lambd s \<le> x"
    by (intro map2_add_ge) simp_all
  have 2: "\<forall>x\<in>set (fold (tau_acc L h w) es t). lambd s \<le> x"
    if "\<forall>x\<in>set t. lambd s \<le> x" "\<forall>e\<in>set es. 0 \<le> snd e" for es t
    using that
  proof (induction es arbitrary: t)
    case Nil then show ?case by simp
  next
    case (Cons e es)
    obtain i c where e: "e = (i, c)" by (cases e)
    have c: "0 \<le> c" using Cons.prems(2) e by simp
    have "\<forall>y\<in>set (map ((*) c) (embed_at (h * w) (w * i) (replicate (w * (h - L)) 1))). 0 \<le> y"
      using c by (auto simp: embed_at_def)
    then have "\<forall>x\<in>set (tau_acc L h w e t). lambd s \<le> x"
      unfolding tau_acc_def e prod.case using Cons.prems(1) by (intro map2_add_ge)
    moreover have "\<forall>e\<in>set es. 0 \<le> snd e" using Cons.prems(2) by simp
    ultimately have "\<forall>x\<in>set (fold (tau_acc L h w) es (tau_acc L h w e t)). lambd s \<le> x"
      by (rule Cons.IH)
    then show ?case by simp
  qed
  have 3: "\<forall>e\<in>set (enumerate 0 ?a). 0 \<le> snd e"
    using in_enumerate[of _ _ ?a] by fastforce
  show ?thesis unfolding tau_sums_def using 2[OF 1 3] .
qed

lemma np_reciprocal_Inr: "0 \<notin> set xs \<Longrightarrow> np_reciprocal xs = Inr (map (\<lambda>x. 1 / x) xs)"
  by (simp add: np_reciprocal_def)

lemma np_reciprocal_cases:
  "np_reciprocal xs = Inl NonFinite \<or> np_reciprocal xs = Inr (map (\<lambda>x. 1 / x) xs)"
  by (simp add: np_reciprocal_def)

lemma abs_sum_pos: "\<exists>c\<in>set cs. c \<noteq> (0::real) \<Longrightarrow> 0 < sum_list (map abs cs)"
proof (induction cs)
  case Nil then show ?case by simp
next
  case (Cons c cs)
  have "0 \<le> sum_list (map abs cs)" by (rule sum_list_nonneg) auto
  then show ?case using Cons by (cases "c = 0") auto
qed

lemma step_size_total:
  assumes st: "stencil s L" and h: "L < h" and w: "L < w"
    and lam: "0 < lambd s" and nz: "\<exists>c\<in>set (coef s). c \<noteq> 0"
  shows "step_size s (h, w)
         = Inr (map (\<lambda>x. 1 / x) (tau_sums s L h w), map (\<lambda>x. 1 / x) (sigma_sums s L h w))"
proof -
  have "0 \<notin> set (tau_sums s L h w)" using tau_sums_ge[of s L h w] lam by fastforce
  moreover have "0 \<notin> set (sigma_sums s L h w)"
    using abs_sum_pos[OF nz] lam by (auto simp: sigma_sums_def)
  ultimately show ?thesis
    by (simp add: step_size_closed[OF st h w] np_reciprocal_Inr)
qed

lemma step_size_cases:
  assumes st: "stencil s L" and h: "L < h" and w: "L < w"
  shows "step_size s (h, w) = Inl NonFinite
         \<or> step_size s (h, w)
           = Inr (map (\<lambda>x. 1 / x) (tau_sums s L h w), map (\<lambda>x. 1 / x) (sigma_sums s L h w))"
  using np_reciprocal_cases[of "tau_sums s L h w"] np_reciprocal_cases[of "sigma_sums s L h w"]
  by (auto simp: step_size_closed[OF st h w])

lemma length_sigma_sums: "length (sigma_sums s L h w) = h * (w - L) + w * (h - L) + h * w"
  by (simp add: sigma_sums_def)

subsection \<open>Totality of the operators\<close>

text \<open>
  Claim C10. For a stencil of at least two coefficients and a shape \<open>(h, w)\<close> with
  \<open>h > length\<close> and \<open>w > length\<close>: \<^verbatim>\<open>_tv\<close> returns \<open>2 * h * w - length * (h + w)\<close> entries on
  every image of that shape; on every vector of that many entries \<^verbatim>\<open>_transposed_tv\<close> builds
  \<^verbatim>\<open>v0\<close> and returns \<open>h * w\<close> entries, and for every tap \<open>i\<close> the slices
  \<^verbatim>\<open>ret[i : i + len(v0)]\<close> and \<^verbatim>\<open>ret[w*i : w*i + index2]\<close> end inside the accumulator;
  no array operation of \<^verbatim>\<open>_step_size\<close> raises, and what it returns is \<^verbatim>\<open>tau\<close> with
  \<open>h * w\<close> entries and \<^verbatim>\<open>sigma\<close> with \<open>3 * h * w - length * (h + w)\<close> entries (it returns
  whenever no sum it inverts is zero, in particular for \<open>lambd > 0\<close> and a stencil that is not
  all zero).
\<close>

theorem operators_total:
  assumes s: "init lam mi cf tolr epsr sat ext = Inr s"
    and k: "2 \<le> length cf"
    and h: "length cf - 1 < h" and w: "length cf - 1 < w"
  shows "(\<forall>u. wf_image u \<and> height u = h \<and> width u = w \<longrightarrow>
            (\<exists>d. tv s u = Inr d
               \<and> int (length d) = 2 * int h * int w - int (length cf - 1) * (int h + int w)))
       \<and> (\<forall>v. int (length v) = 2 * int h * int w - int (length cf - 1) * (int h + int w) \<longrightarrow>
            (\<exists>v0 g. insert_zeros s v (h, w) = Inr v0 \<and> transposed_tv s v (h, w) = Inr g
               \<and> length g = h * w
               \<and> (\<forall>i<length cf. i + length v0 \<le> h * w
                                 \<and> w * i + w * (h - (length cf - 1)) \<le> h * w)))
       \<and> (step_size s (h, w) = Inl NonFinite
          \<or> (\<exists>tau sigma. step_size s (h, w) = Inr (tau, sigma) \<and> length tau = h * w
                \<and> int (length sigma) = 3 * int h * int w - int (length cf - 1) * (int h + int w)))
       \<and> (0 < lam \<and> (\<exists>c\<in>set cf. c \<noteq> 0) \<longrightarrow> (\<exists>tau sigma. step_size s (h, w) = Inr (tau, sigma)))"
proof -
  let ?L = "length cf - 1"
  let ?n = "h * (w - ?L) + w * (h - ?L)"
  have st: "stencil s ?L" using stencil_init[OF s k] .
  have cf: "coef s = cf" "lambd s = lam" using s by (auto simp: init_def)
  have nint: "2 * int h * int w - int ?L * (int h + int w) = int ?n"
    using int_blocks[of ?L w h] h w by simp
  have 1: "\<exists>d. tv s u = Inr d \<and> int (length d) = 2 * int h * int w - int ?L * (int h + int w)"
    if "wf_image u \<and> height u = h \<and> width u = w" for u
  proof -
    have "L < height u" "L < width u" if "L = ?L" for L using that h w \<open>wf_image u \<and> _\<close> by simp_all
    then show ?thesis
      using tv_closed[of u s ?L] that st nint by (simp del: of_nat_add of_nat_mult)
  qed
  have 2: "\<exists>v0 g. insert_zeros s v (h, w) = Inr v0 \<and> transposed_tv s v (h, w) = Inr g
               \<and> length g = h * w
               \<and> (\<forall>i<length cf. i + length v0 \<le> h * w \<and> w * i + w * (h - ?L) \<le> h * w)"
    if "int (length v) = 2 * int h * int w - int ?L * (int h + int w)" for v
  proof -
    let ?v0 = "pad_rows ?L (w - ?L) h (take (h * (w - ?L)) v)"
    have lv: "length v = ?n" using length_from_int[OF h w that] .
    have iz: "insert_zeros s v (h, w) = Inr ?v0"
      using h lv by (intro insert_zeros_closed[OF st w]) simp_all
    have l0: "length ?v0 = h * w - ?L"
      using lv h w by (intro length_pad_rows_full) simp_all
    have Lhw: "?L \<le> h * w"
      using h w by (metis less_imp_le_nat le_trans le_square mult_le_mono)
    have b: "i + length ?v0 \<le> h * w \<and> w * i + w * (h - ?L) \<le> h * w" if "i < length cf" for i
    proof -
      have i: "i \<le> ?L" using that by simp
      have "i + (h * w - ?L) \<le> h * w" using i Lhw by linarith
      then show ?thesis using l0 vshift_bound[OF i h, of w] by (simp only:)
    qed
    show ?thesis using iz transposed_tv_closed[OF st h w lv] b by blast
  qed
  have lsig: "int (length (map (\<lambda>x. 1 / x) (sigma_sums s ?L h w)))
              = 3 * int h * int w - int ?L * (int h + int w)"
  proof -
    have "3 * int h * int w - int ?L * (int h + int w)
          = (2 * int h * int w - int ?L * (int h + int w)) + int (h * w)" by simp
    also have "\<dots> = int (?n + h * w)" by (simp only: nint of_nat_add)
    finally show ?thesis by (simp only: length_map length_sigma_sums)
  qed
  have 3: "step_size s (h, w) = Inl NonFinite
          \<or> (\<exists>tau sigma. step_size s (h, w) = Inr (tau, sigma) \<and> length tau = h * w
                \<and> int (length sigma) = 3 * int h * int w - int ?L * (int h + int w))"
    using step_size_cases[OF st h w] length_tau_sums[OF st h w] lsig
    by (metis length_map)
  have 4: "\<exists>tau sigma. step_size s (h, w) = Inr (tau, sigma)" if "0 < lam \<and> (\<exists>c\<in>set cf. c \<noteq> 0)"
    using step_size_total[OF st h w] that cf by simp
  show ?thesis using 1 2 3 4 by blast
qed

theorem operators_total_witness:
  "wf_image \<lparr>height = 2, width = 3, pixels = [1, 2, 3, 4, 5, 6]\<rparr>
   \<and> (\<exists>d. tv \<lparr>lambd = 1, max_iter = 10, coef = [1, - 1], tol = 1 / 1000, eps = 1 / 10 ^ 16,
                 saturation = False, extended_output = False, length_s = 1\<rparr>
               \<lparr>height = 2, width = 3, pixels = [1, 2, 3, 4, 5, 6]\<rparr> = Inr d \<and> length d = 7)
   \<and> (\<exists>g. transposed_tv \<lparr>lambd = 1, max_iter = 10, coef = [1, - 1], tol = 1 / 1000,
                 eps = 1 / 10 ^ 16, saturation = False, extended_output = False, length_s = 1\<rparr>
               [1, 1, 1, 1, 1, 1, 1] (2, 3) = Inr g \<and> length g = 6)
   \<and> (\<exists>tau sigma. step_size \<lparr>lambd = 1, max_iter = 10, coef = [1, - 1], tol = 1 / 1000,
                 eps = 1 / 10 ^ 16, saturation = False, extended_output = False, length_s = 1\<rparr>
               (2, 3) = Inr (tau, sigma))"
proof -
  let ?s = "\<lparr>lambd = 1, max_iter = 10, coef = [1, - 1], tol = 1 / 1000, eps = 1 / 10 ^ 16,
            saturation = False, extended_output = False, length_s = 1\<rparr>"
  let ?u = "\<lparr>height = 2, width = 3, pixels = [1, 2, 3, 4, 5, 6 :: real]\<rparr>"
  let ?v = "[1, 1, 1, 1, 1, 1, 1 :: real]"
  have i: "init 1 10 [1, - 1] (1 / 1000) (1 / 10 ^ 16) False False = Inr ?s"
    by (simp add: init_def)
  have wf: "wf_image ?u \<and> height ?u = 2 \<and> width ?u = 3" by (simp add: wf_image_def)
  have lv: "int (length ?v) = 2 * int 2 * int 3 - int (length [1, - 1 :: real] - 1) * (int 2 + int 3)"
    by simp
  have pos: "(0::real) < 1 \<and> (\<exists>c\<in>set [1, - 1 :: real]. c \<noteq> 0)" by simp
  have k: "2 \<le> length [1, - 1 :: real]" and hh: "length [1, - 1 :: real] - 1 < 2"
    and ww: "length [1, - 1 :: real] - 1 < 3" by simp_all
  note t = operators_total[OF i k hh ww]
  note t1 = t[THEN conjunct1, rule_format, OF wf]
  note t2 = t[THEN conjunct2, THEN conjunct1, rule_format, OF lv]
  note t4 = t[THEN conjunct2, THEN conjunct2, THEN conjunct2, rule_format, OF pos]
  from t1 obtain d where d: "tv ?s ?u = Inr d" "int (length d) = 7" by auto
  from t2 obtain g where g: "transposed_tv ?s ?v (2, 3) = Inr g" "length g = 6" by auto
  from d have d': "length d = 7" by simp
  show ?thesis using wf d(1) d' g t4 by blast
qed

subsection \<open>Construction\<close>

text \<open>
  Claim C4, as the code has it. \<^verbatim>\<open>__init__\<close> has no check: for every value of its parameters,
  valid or not, construction succeeds, the solver holds the parameters unchanged, and its
  \<^verbatim>\<open>length\<close> is \<open>len(coef) - 1\<close>.
\<close>

theorem init_never_fails:
  "\<exists>s. init lam mi cf tolr epsr sat ext = Inr s
       \<and> lambd s = lam \<and> max_iter s = mi \<and> coef s = cf \<and> tol s = tolr \<and> eps s = epsr
       \<and> saturation s = sat \<and> extended_output s = ext \<and> length_s s = int (length cf) - 1"
  by (simp add: init_def)

text \<open>The claim as stated fails: an empty coefficient sequence with \<open>lambd\<close>, \<open>tol\<close>, \<open>eps\<close>
  and \<open>max_iter\<close> all zero is accepted.\<close>

theorem init_accepts_invalid:
  "init 0 0 [] 0 0 False False
   = Inr \<lparr>lambd = 0, max_iter = 0, coef = [], tol = 0, eps = 0,
          saturation = False, extended_output = False, length_s = - 1\<rparr>"
  by (simp add: init_def)

section \<open>The iteration on admissible shapes\<close>

lemma slice_bounds_to_neg:
  "0 < k \<Longrightarrow> slice_bounds (n + k) None (Some (- int k)) = (0, n)"
  by (simp add: slice_bounds_def clamp_index_def Let_def)

lemma slice_bounds_from_neg:
  "0 < k \<Longrightarrow> slice_bounds (n + k) (Some (- int k)) None = (n, n + k)"
  by (simp add: slice_bounds_def clamp_index_def Let_def)

lemma slice_head:
  "0 < k \<Longrightarrow> length xs = n + k \<Longrightarrow> slice None (Some (- int k)) xs = take n xs"
  by (simp add: slice_def slice_bounds_to_neg)

lemma slice_tail:
  "0 < k \<Longrightarrow> length xs = n + k \<Longrightarrow> slice (Some (- int k)) None xs = drop n xs"
  by (simp add: slice_def slice_bounds_from_neg)

lemma iadd_slice_head:
  "0 < k \<Longrightarrow> length xs = n + k \<Longrightarrow> length ys = n \<Longrightarrow>
   iadd_slice xs None (Some (- int k)) ys = Inr (map2 (+) (take n xs) ys @ drop n xs)"
  by (simp add: iadd_slice_def slice_bounds_to_neg broadcast_to_def)

lemma iadd_slice_tail:
  "0 < k \<Longrightarrow> length xs = n + k \<Longrightarrow> length ys = k \<Longrightarrow>
   iadd_slice xs (Some (- int k)) None ys = Inr (take n xs @ map2 (+) (drop n xs) ys)"
  by (simp add: iadd_slice_def slice_bounds_from_neg broadcast_to_def)

lemma set_slice_head:
  "0 < k \<Longrightarrow> length xs = n + k \<Longrightarrow> length ys = n \<Longrightarrow>
   set_slice xs None (Some (- int k)) ys = Inr (ys @ drop n xs)"
  by (simp add: set_slice_def slice_bounds_to_neg broadcast_to_def)

lemma np_binop_same: "length xs = length ys \<Longrightarrow> np_binop f xs ys = Inr (map2 f xs ys)"
  by (simp add: np_binop_def)

lemma objective_closed:
  "tv s r = Inr d \<Longrightarrow>
   objective s r X
   = Inr (sum_list (map abs d) + lambd s * sum_list (map abs (map2 (-) (pixels r) (pixels X))))"
  by (simp add: objective_def image_map2_def)

lemma record_objective_closed:
  "tv s r = Inr d \<Longrightarrow>
   record_objective s r X os
   = Inr (if extended_output s
          then os @ [sum_list (map abs d) + lambd s * sum_list (map abs (map2 (-) (pixels r) (pixels X)))]
          else os)"
  by (simp add: record_objective_def objective_closed)

lemma initialize_closed:
  assumes st: "stencil s L" and wf: "wf_image X" and h: "L < height X" and w: "L < width X"
    and ls: "length sigma = height X * (width X - L) + width X * (height X - L) + height X * width X"
    and d: "tv s X = Inr d"
  shows "initialize s X sigma
         = Inr \<lparr>res = X,
                dual = np_clip (map2 (*) (take (height X * (width X - L) + width X * (height X - L)) sigma) d)
                         (- 1) 1 @ replicate (height X * width X) 0,
                obj = (if extended_output s
                       then [sum_list (map abs d)
                             + lambd s * sum_list (map abs (map2 (-) (pixels X) (pixels X)))]
                       else [])\<rparr>"
proof -
  let ?h = "height X" and ?w = "width X"
  let ?n = "?h * (?w - L) + ?w * (?h - L)" and ?k = "?h * ?w"
  let ?sd = "map2 (*) (take ?n sigma) d"
  have lc: "int (length (coef s)) - 1 = int L" using st by (simp add: stencil_def)
  have k: "0 < ?k" using h w by simp
  have ld: "length d = ?n" using tv_closed[OF wf st h w] d by simp
  have z: "np_zeros (3 * int ?h * int ?w - int L * (int ?h + int ?w)) = Inr (replicate (?n + ?k) 0)"
  proof -
    have "3 * int ?h * int ?w - int L * (int ?h + int ?w)
          = (2 * int ?h * int ?w - int L * (int ?h + int ?w)) + int ?k" by simp
    also have "\<dots> = int (?n + ?k)"
      using int_blocks[of L ?w ?h] h w by (simp only: of_nat_add)
    finally show ?thesis by (simp only: np_zeros_nat)
  qed
  have sl: "slice None (Some (- int ?k)) sigma = take ?n sigma"
    using k ls by (rule slice_head)
  have b: "np_binop (*) (take ?n sigma) d = Inr ?sd"
    using ls ld by (intro np_binop_same) simp
  have ss: "set_slice (replicate (?n + ?k) 0) None (Some (- int ?k)) (np_clip ?sd (- 1) 1)
            = Inr (np_clip ?sd (- 1) 1 @ replicate ?k 0)"
  proof -
    have "set_slice (replicate (?n + ?k) 0) None (Some (- int ?k)) (np_clip ?sd (- 1) 1)
          = Inr (np_clip ?sd (- 1) 1 @ drop ?n (replicate (?n + ?k) 0))"
      using k ls ld by (intro set_slice_head) (simp_all add: np_clip_def)
    then show ?thesis by simp
  qed
  have ro: "record_objective s X X []
            = Inr (if extended_output s
                   then [sum_list (map abs d) + lambd s * sum_list (map abs (map2 (-) (pixels X) (pixels X)))]
                   else [])"
    using record_objective_closed[OF d, of X "[]"] by simp
  show ?thesis
    by (simp only: initialize_def Let_def lc z bindE_Inr d sl b ss ro)
qed

lemma wf_image_map2:
  "wf_image a \<Longrightarrow> length (pixels b) = length (pixels a) \<Longrightarrow>
   wf_image (image_map2 f a b) \<and> height (image_map2 f a b) = height a
   \<and> width (image_map2 f a b) = width a"
  by (simp add: wf_image_def image_map2_def)

lemma wf_image_map:
  "wf_image a \<Longrightarrow>
   wf_image (image_map f a) \<and> height (image_map f a) = height a \<and> width (image_map f a) = width a"
  by (simp add: wf_image_def image_map_def)

lemma iteration_total:
  assumes st: "stencil s L" and wf: "wf_image X" and h: "L < height X" and w: "L < width X"
    and lt: "length tau = height X * width X"
    and ls: "length sigma = height X * (width X - L) + width X * (height X - L) + height X * width X"
    and ok: "state_ok L X st0"
  shows "\<exists>st' b. iteration s X tau sigma st0 = Inr (st', b) \<and> state_ok L X st'"
proof -
  define n where "n = height X * (width X - L) + width X * (height X - L)"
  define k where "k = height X * width X"
  have k: "0 < k" using h w by (simp add: k_def)
  have wr: "wf_image (res st0)" and hr: "height (res st0) = height X"
    and wdr: "width (res st0) = width X" and ldu: "length (dual st0) = n + k"
    using ok by (simp_all add: state_ok_def n_def k_def)
  have lpr: "length (pixels (res st0)) = k" using wr hr wdr by (simp add: wf_image_def k_def)
  have lpx: "length (pixels X) = k" using wf by (simp add: wf_image_def k_def)
  have ls': "length sigma = n + k" and lt': "length tau = k" using ls lt by (simp_all add: n_def k_def)
  define dt where "dt = take n (dual st0)"
  define dd where "dd = drop n (dual st0)"
  have ldt: "length dt = n" and ldd: "length dd = k" using ldu by (simp_all add: dt_def dd_def)
  have s1: "slice None (Some (- int k)) (dual st0) = dt"
    unfolding dt_def using k ldu by (rule slice_head)
  have s2: "slice (Some (- int k)) None (dual st0) = dd"
    unfolding dd_def using k ldu by (rule slice_tail)
  have s3: "slice None (Some (- int k)) sigma = take n sigma" using k ls' by (rule slice_head)
  have s4: "slice (Some (- int k)) None sigma = drop n sigma" using k ls' by (rule slice_tail)
  obtain g where g: "transposed_tv s dt (height X, width X) = Inr g" and lg: "length g = k"
    using transposed_tv_closed[OF st h w, of dt] ldt by (simp add: n_def k_def)
  define grad where "grad = map2 (+) g (map ((*) (lambd s)) dd)"
  have b1: "np_binop (+) g (map ((*) (lambd s)) dd) = Inr grad"
    unfolding grad_def using lg ldd by (intro np_binop_same) simp
  have lgrad: "length grad = k" using lg ldd by (simp add: grad_def)
  define stp where "stp = map2 (*) tau grad"
  have b2: "np_binop (*) tau grad = Inr stp"
    unfolding stp_def using lgrad lt' by (intro np_binop_same) simp
  have lstp: "length stp = k" using lgrad lt' by (simp add: stp_def)
  define m where "m = \<lparr>height = height X, width = width X, pixels = stp\<rparr>"
  have rs: "np_reshape stp (height X, width X) = Inr m"
    using lstp by (simp add: np_reshape_def m_def k_def)
  define u0 where "u0 = image_map2 (-) (res st0) m"
  have "length (pixels m) = length (pixels (res st0))" using lstp lpr by (simp add: m_def)
  then have u0: "wf_image u0" "height u0 = height X" "width u0 = width X"
    unfolding u0_def using wf_image_map2[OF wr, of m "(-)"] hr wdr by simp_all
  define u where "u = (if saturation s then image_map (\<lambda>x. min (max x 0) 1) u0 else u0)"
  have u: "wf_image u" "height u = height X" "width u = width X"
    unfolding u_def using u0 wf_image_map[OF u0(1), of "\<lambda>x. min (max x 0) 1"] by simp_all
  define u2 where "u2 = image_map ((*) 2) u"
  have u2: "wf_image u2" "height u2 = height X" "width u2 = width X"
    unfolding u2_def using u wf_image_map[OF u(1), of "(*) 2"] by simp_all
  have lu2: "length (pixels u2) = k" using u2 by (simp add: wf_image_def k_def)
  define bar where "bar = image_map2 (-) u2 (res st0)"
  have bar: "wf_image bar" "height bar = height X" "width bar = width X"
    unfolding bar_def using wf_image_map2[OF u2(1), of "res st0" "(-)"] lu2 lpr u2 by simp_all
  obtain d where d: "tv s bar = Inr d" and ld: "length d = n"
    using tv_closed[of bar s L] bar st h w by (auto simp: n_def)
  define inc1 where "inc1 = map2 (*) (take n sigma) d"
  have b3: "np_binop (*) (take n sigma) d = Inr inc1"
    unfolding inc1_def using ls' ld by (intro np_binop_same) simp
  have linc1: "length inc1 = n" using ls' ld by (simp add: inc1_def)
  define dual1 where "dual1 = map2 (+) (take n (dual st0)) inc1 @ drop n (dual st0)"
  have a1: "iadd_slice (dual st0) None (Some (- int k)) inc1 = Inr dual1"
    unfolding dual1_def using k ldu linc1 by (rule iadd_slice_head)
  have ld1: "length dual1 = n + k" using ldu linc1 by (simp add: dual1_def)
  define bx where "bx = pixels (image_map2 (-) bar X)"
  have lbx: "length bx = k"
    using bar lpx by (simp add: bx_def image_map2_def wf_image_def k_def)
  define inc2 where "inc2 = map2 (*) (map (\<lambda>x. x * lambd s) (drop n sigma)) bx"
  have b4: "np_binop (*) (map (\<lambda>x. x * lambd s) (drop n sigma)) bx = Inr inc2"
    unfolding inc2_def using ls' lbx by (intro np_binop_same) simp
  have linc2: "length inc2 = k" using ls' lbx by (simp add: inc2_def)
  define dual2 where "dual2 = take n dual1 @ map2 (+) (drop n dual1) inc2"
  have a2: "iadd_slice dual1 (Some (- int k)) None inc2 = Inr dual2"
    unfolding dual2_def using k ld1 linc2 by (rule iadd_slice_tail)
  have ld2: "length dual2 = n + k" using ld1 linc2 by (simp add: dual2_def)
  obtain du where du: "tv s u = Inr du"
    using tv_closed(1)[of u s L] u st h w by auto
  obtain os where os: "record_objective s u X (obj st0) = Inr os"
    using record_objective_closed[OF du] by blast
  define st' where "st' = \<lparr>res = u, dual = np_clip dual2 (- 1) 1, obj = os\<rparr>"
  have "update s X tau sigma st0 = Inr st'"
    unfolding update_def Let_def k_def[symmetric] s1 s2 s3 s4 g bindE_Inr b1 b2 rs
      u0_def[symmetric] u_def[symmetric] u2_def[symmetric] bar_def[symmetric] d b3 a1
      bx_def[symmetric] b4 a2 os st'_def ..
  then have "iteration s X tau sigma st0 = Inr (st', converged s st0 st')"
    by (simp add: iteration_def)
  moreover have "state_ok L X st'"
    using u ld2 by (simp add: state_ok_def st'_def np_clip_def n_def k_def)
  ultimately show ?thesis by blast
qed

lemma bindE_eq_Inr: "bindE m f = Inr y \<longleftrightarrow> (\<exists>x. m = Inr x \<and> f x = Inr y)"
  by (cases m) simp_all

lemma np_clip_in_box: "in_box (np_clip xs (- 1) 1)"
  by (auto simp: in_box_def np_clip_def)

lemma iteration_result:
  assumes "iteration s X tau sigma st = Inr (st', b)"
  shows "\<exists>m du. res st' = (if saturation s
                        then image_map (\<lambda>x. min (max x 0) 1) (image_map2 (-) (res st) m)
                        else image_map2 (-) (res st) m)
           \<and> dual st' = np_clip du (- 1) 1
           \<and> record_objective s (res st') X (obj st) = Inr (obj st')"
  using assms unfolding iteration_def update_def Let_def bindE_eq_Inr by (elim exE conjE) auto



lemma record_objective_result:
  assumes "record_objective s r X os = Inr os'"
  shows "if extended_output s then \<exists>v. objective s r X = Inr v \<and> os' = os @ [v] else os' = os"
  using assms by (auto simp: record_objective_def bindE_eq_Inr split: if_splits)

lemma iteration_obj:
  assumes "iteration s X tau sigma st = Inr (st', b)"
  shows "if extended_output s then \<exists>v. objective s (res st') X = Inr v \<and> obj st' = obj st @ [v]
         else obj st' = obj st"
proof -
  from iteration_result[OF assms]
  have "record_objective s (res st') X (obj st) = Inr (obj st')" by blast
  then show ?thesis by (rule record_objective_result)
qed

lemma set_slice_in_box:
  assumes "set_slice xs lo hi ys = Inr r" "in_box xs" "in_box ys"
  shows "in_box r"
proof -
  obtain a e where b: "slice_bounds (length xs) lo hi = (a, e)" by (cases "slice_bounds (length xs) lo hi")
  then obtain zs where zs: "broadcast_to (e - a) ys = Inr zs" "r = take a xs @ zs @ drop e xs"
    using assms(1) by (auto simp: set_slice_def bindE_eq_Inr)
  have "in_box zs"
  proof (cases "length ys = e - a")
    case True then show ?thesis using zs(1) assms(3) by (simp add: broadcast_to_def)
  next
    case False
    then have "length ys = 1" "zs = replicate (e - a) (hd ys)"
      using zs(1) by (auto simp: broadcast_to_def split: if_splits)
    moreover from this have "hd ys \<in> set ys" by (cases ys) auto
    ultimately show ?thesis using assms(3) by (auto simp: in_box_def)
  qed
  then show ?thesis
    using assms(2) zs(2) by (auto simp: in_box_def dest: in_set_takeD in_set_dropD)
qed

lemma initialize_result:
  assumes "initialize s X sigma = Inr st"
  shows "res st = X \<and> in_box (dual st) \<and> record_objective s X X [] = Inr (obj st)"
proof -
  from assms obtain dual0 d sd dual1 os where
    z: "np_zeros (3 * int (height X) * int (width X)
                  - (int (length (coef s)) - 1) * (int (height X) + int (width X))) = Inr dual0"
    and ss: "set_slice dual0 None (Some (- int (height X * width X))) (np_clip sd (- 1) 1) = Inr dual1"
    and ro: "record_objective s X X [] = Inr os"
    and st: "st = \<lparr>res = X, dual = dual1, obj = os\<rparr>"
    unfolding initialize_def Let_def bindE_eq_Inr by auto
  have "in_box dual0" using z by (auto simp: np_zeros_def in_box_def split: if_splits)
  then have "in_box dual1" using set_slice_in_box[OF ss] np_clip_in_box by simp
  then show ?thesis using ro st by simp
qed

lemma main_loop_states:
  "main_loop s X tau sigma n st
   = bindE (loop_states s X tau sigma n st) (\<lambda>sts. Inr (last (st # sts)))"
proof (induction n arbitrary: st)
  case 0 then show ?case by simp
next
  case (Suc n)
  show ?case
  proof (cases "iteration s X tau sigma st")
    case (Inl e) then show ?thesis by simp
  next
    case (Inr p)
    obtain st' b where p: "p = (st', b)" by (cases p)
    show ?thesis
    proof (cases b)
      case True then show ?thesis using Inr p by simp
    next
      case False
      then show ?thesis
        using Inr p Suc[of st'] by (cases "loop_states s X tau sigma n st'") simp_all
    qed
  qed
qed

lemma transform_run_states:
  "transform s X = bindE (run_states s X) (\<lambda>sts. Inr (res (last sts), obj (last sts)))"
proof (cases "step_size s (height X, width X)")
  case (Inl e) then show ?thesis by (simp add: transform_def run_states_def)
next
  case (Inr p)
  obtain tau sigma where p: "p = (tau, sigma)" by (cases p)
  show ?thesis
  proof (cases "initialize s X sigma")
    case (Inl e) then show ?thesis using Inr p by (simp add: transform_def run_states_def)
  next
    case st0: (Inr st0)
    show ?thesis
      using Inr p st0 main_loop_states[of s X tau sigma "nat (max_iter s)" st0]
      by (cases "loop_states s X tau sigma (nat (max_iter s)) st0")
         (simp_all add: transform_def run_states_def)
  qed
qed

lemma loop_states_cases:
  assumes "loop_states s X tau sigma (Suc n) st = Inr sts"
  obtains st' b where "iteration s X tau sigma st = Inr (st', b)" "b" "sts = [st']"
  | st' sts' where "iteration s X tau sigma st = Inr (st', False)"
      "loop_states s X tau sigma n st' = Inr sts'" "sts = st' # sts'"
  using assms by (auto simp: bindE_eq_Inr split: if_splits)



lemma loop_states_total:
  assumes st: "stencil s L" and wf: "wf_image X" and h: "L < height X" and w: "L < width X"
    and lt: "length tau = height X * width X"
    and ls: "length sigma = height X * (width X - L) + width X * (height X - L) + height X * width X"
  shows "state_ok L X st0 \<Longrightarrow> \<exists>sts. loop_states s X tau sigma n st0 = Inr sts"
proof (induction n arbitrary: st0)
  case 0 then show ?case by simp
next
  case (Suc n)
  obtain st' b where it: "iteration s X tau sigma st0 = Inr (st', b)" and ok: "state_ok L X st'"
    using iteration_total[OF st wf h w lt ls Suc.prems] by blast
  show ?case
  proof (cases b)
    case True then show ?thesis using it by simp
  next
    case False
    obtain sts where "loop_states s X tau sigma n st' = Inr sts" using Suc.IH[OF ok] by blast
    then show ?thesis using it False by simp
  qed
qed

lemma initialize_total:
  assumes st: "stencil s L" and wf: "wf_image X" and h: "L < height X" and w: "L < width X"
    and ls: "length sigma = height X * (width X - L) + width X * (height X - L) + height X * width X"
  shows "\<exists>st0 d. initialize s X sigma = Inr st0 \<and> state_ok L X st0 \<and> tv s X = Inr d
           \<and> res st0 = X
           \<and> dual st0 = np_clip (map2 (*) (slice None (Some (- int (height X * width X))) sigma) d) (- 1) 1
                          @ replicate (height X * width X) 0"
proof -
  let ?n = "height X * (width X - L) + width X * (height X - L)"
  obtain d where d: "tv s X = Inr d" and ld: "length d = ?n"
    using tv_closed[OF wf st h w] by blast
  have k: "0 < height X * width X" using h w by simp
  have sl: "slice None (Some (- int (height X * width X))) sigma = take ?n sigma"
    using k ls by (rule slice_head)
  note i = initialize_closed[OF st wf h w ls d]
  have "state_ok L X \<lparr>res = X,
                dual = np_clip (map2 (*) (take ?n sigma) d) (- 1) 1 @ replicate (height X * width X) 0,
                obj = (if extended_output s
                       then [sum_list (map abs d)
                             + lambd s * sum_list (map abs (map2 (-) (pixels X) (pixels X)))]
                       else [])\<rparr>"
    using wf ls ld by (simp add: state_ok_def np_clip_def)
  then show ?thesis using i d sl by (simp only:) auto
qed

lemma run_states_total:
  assumes st: "stencil s L" and wf: "wf_image X" and h: "L < height X" and w: "L < width X"
    and lam: "0 < lambd s" and nz: "\<exists>c\<in>set (coef s). c \<noteq> 0"
  shows "\<exists>sts. run_states s X = Inr sts"
proof -
  let ?tau = "map (\<lambda>x. 1 / x) (tau_sums s L (height X) (width X))"
  let ?sigma = "map (\<lambda>x. 1 / x) (sigma_sums s L (height X) (width X))"
  have ss: "step_size s (height X, width X) = Inr (?tau, ?sigma)"
    using step_size_total[OF st h w lam nz] .
  have lt: "length ?tau = height X * width X" using length_tau_sums[OF st h w] by simp
  have ls: "length ?sigma
            = height X * (width X - L) + width X * (height X - L) + height X * width X"
    by (simp add: length_sigma_sums)
  obtain st0 where i: "initialize s X ?sigma = Inr st0" and ok: "state_ok L X st0"
    using initialize_total[OF st wf h w ls] by blast
  obtain sts where "loop_states s X ?tau ?sigma (nat (max_iter s)) st0 = Inr sts"
    using loop_states_total[OF st wf h w lt ls ok] by blast
  then show ?thesis using ss i by (simp add: run_states_def)
qed

lemma transform_total:
  assumes st: "stencil s L" and wf: "wf_image X" and h: "L < height X" and w: "L < width X"
    and lam: "0 < lambd s" and nz: "\<exists>c\<in>set (coef s). c \<noteq> 0"
  shows "\<exists>r os. transform s X = Inr (r, os)"
  using run_states_total[OF assms] by (auto simp: transform_run_states)

lemma run_states_result:
  assumes "run_states s X = Inr sts"
  obtains tau sigma st0 sts' where "step_size s (height X, width X) = Inr (tau, sigma)"
    "initialize s X sigma = Inr st0"
    "loop_states s X tau sigma (nat (max_iter s)) st0 = Inr sts'" "sts = st0 # sts'"
  using assms by (auto simp: run_states_def bindE_eq_Inr)

lemma loop_states_obj:
  assumes "loop_states s X tau sigma n st = Inr sts"
  shows "if extended_output s
         then \<exists>vs. list_all2 (\<lambda>st v. objective s (res st) X = Inr v) sts vs
                \<and> obj (last (st # sts)) = obj st @ vs
         else obj (last (st # sts)) = obj st"
  using assms
proof (induction n arbitrary: st sts)
  case 0 then show ?case by simp
next
  case (Suc n)
  from Suc.prems show ?case
  proof (cases rule: loop_states_cases)
    case (1 st' b)
    then show ?thesis using iteration_obj[OF 1(1)] by (auto split: if_splits)
  next
    case (2 st' sts')
    show ?thesis
    proof (cases "extended_output s")
      case True
      obtain v where v: "objective s (res st') X = Inr v" "obj st' = obj st @ [v]"
        using iteration_obj[OF 2(1)] True by auto
      obtain vs where vs: "list_all2 (\<lambda>st v. objective s (res st) X = Inr v) sts' vs"
        "obj (last (st' # sts')) = obj st' @ vs"
        using Suc.IH[OF 2(2)] True by auto
      have "list_all2 (\<lambda>st v. objective s (res st) X = Inr v) sts (v # vs)"
        using v(1) vs(1) 2(3) by simp
      moreover have "obj (last (st # sts)) = obj st @ (v # vs)"
        using v(2) vs(2) 2(3) by simp
      ultimately show ?thesis using True by auto
    next
      case False
      then show ?thesis using iteration_obj[OF 2(1)] Suc.IH[OF 2(2)] 2(3) by simp
    qed
  qed
qed

lemma admissible:
  assumes "init lam mi cf tolr epsr sat ext = Inr s \<and> 2 \<le> length cf \<and> wf_image X
           \<and> length cf - 1 < height X \<and> length cf - 1 < width X
           \<and> 0 < lam \<and> (\<exists>c\<in>set cf. c \<noteq> 0)"
  shows "stencil s (length cf - 1)" "wf_image X" "length cf - 1 < height X"
    "length cf - 1 < width X" "0 < lambd s" "\<exists>c\<in>set (coef s). c \<noteq> 0"
  using assms stencil_init[of lam mi cf tolr epsr sat ext s] by (auto simp: init_def)

section \<open>Properties of \<^verbatim>\<open>transform\<close>\<close>

text \<open>
  A run returns for a constructed solver with at least two coefficients, not all zero, with
  \<open>lambd > 0\<close>, on a well-formed image with more than \<open>length\<close> rows and columns; \<open>lambd > 0\<close>
  and a nonzero coefficient keep every sum that \<^verbatim>\<open>_step_size\<close> inverts away from zero. Where
  such a sum is zero the code goes on with \<^verbatim>\<open>inf\<close> and \<^verbatim>\<open>nan\<close>, which no comparison
  bounds, and the embedding ends in \<open>NonFinite\<close>.
\<close>

subsection \<open>The dual variable\<close>



subsection \<open>Saturation\<close>





subsection \<open>The objective trace\<close>

text \<open>
  Claim C8. The trace that \<^verbatim>\<open>transform\<close> returns is empty when \<^verbatim>\<open>extended_output\<close> is
  false. When it is true the trace has one entry for each state of the run, so its length is
  one plus the number of iterations executed; the state in front is the initial one, whose
  image is \<open>X\<close>, and every entry is the objective
  \<open>sum |D(u)| + lambd * sum |u - X|\<close> at the image \<open>u\<close> of its state.
\<close>

theorem objective_trace:
  "(\<forall>sts. run_states s X = Inr sts \<longrightarrow>
      (\<exists>os. transform s X = Inr (res (last sts), os)
         \<and> (if extended_output s
            then length os = length sts \<and> res (hd sts) = X
                 \<and> list_all2 (\<lambda>st v. \<exists>d. tv s (res st) = Inr d
                        \<and> v = sum_list (map abs d)
                              + lambd s * sum_list (map abs (map2 (-) (pixels (res st)) (pixels X))))
                      sts os
            else os = [])))
   \<and> (init lam mi cf tolr epsr sat ext = Inr s \<and> 2 \<le> length cf \<and> wf_image X
        \<and> length cf - 1 < height X \<and> length cf - 1 < width X
        \<and> 0 < lam \<and> (\<exists>c\<in>set cf. c \<noteq> 0)
      \<longrightarrow> (\<exists>sts. run_states s X = Inr sts))"
proof (intro conjI allI impI)
  fix sts assume rs: "run_states s X = Inr sts"
  let ?R = "\<lambda>st v. objective s (res st) X = Inr v"
  let ?Q = "\<lambda>st v. \<exists>d. tv s (res st) = Inr d
              \<and> v = sum_list (map abs d)
                    + lambd s * sum_list (map abs (map2 (-) (pixels (res st)) (pixels X)))"
  have RQ: "?Q st v" if "?R st v" for st v
    using that by (auto simp: objective_def bindE_eq_Inr image_map2_def)
  from rs obtain tau sigma st0 sts' where i: "initialize s X sigma = Inr st0"
    and l: "loop_states s X tau sigma (nat (max_iter s)) st0 = Inr sts'"
    and sts: "sts = st0 # sts'"
    by (rule run_states_result)
  have r0: "res st0 = X" and o0: "record_objective s X X [] = Inr (obj st0)"
    using initialize_result[OF i] by simp_all
  have tr: "transform s X = Inr (res (last sts), obj (last sts))"
    using rs by (simp add: transform_run_states)
  show "\<exists>os. transform s X = Inr (res (last sts), os)
         \<and> (if extended_output s
            then length os = length sts \<and> res (hd sts) = X \<and> list_all2 ?Q sts os
            else os = [])"
  proof (cases "extended_output s")
    case True
    obtain v0 where v0: "objective s X X = Inr v0" "obj st0 = [v0]"
      using record_objective_result[OF o0] True by auto
    obtain vs where vs: "list_all2 ?R sts' vs" "obj (last (st0 # sts')) = obj st0 @ vs"
      using loop_states_obj[OF l] True by auto
    have "list_all2 ?R sts (v0 # vs)" using v0(1) vs(1) sts r0 by simp
    then have q: "list_all2 ?Q sts (v0 # vs)"
      by (rule list_all2_mono) (rule RQ)
    then have "length (v0 # vs) = length sts" by (simp add: list_all2_lengthD)
    moreover have "obj (last sts) = v0 # vs" using vs(2) v0(2) sts by simp
    ultimately show ?thesis using tr True q r0 sts by auto
  next
    case False
    have "obj st0 = []" using record_objective_result[OF o0] False by simp
    moreover have "obj (last (st0 # sts')) = obj st0" using loop_states_obj[OF l] False by simp
    ultimately show ?thesis using tr False sts by auto
  qed
next
  assume a: "init lam mi cf tolr epsr sat ext = Inr s \<and> 2 \<le> length cf \<and> wf_image X
           \<and> length cf - 1 < height X \<and> length cf - 1 < width X
           \<and> 0 < lam \<and> (\<exists>c\<in>set cf. c \<noteq> 0)"
  show "\<exists>sts. run_states s X = Inr sts"
    using run_states_total[OF admissible[OF a]] .
qed

theorem objective_trace_witness:
  "\<exists>sts os. run_states \<lparr>lambd = 1, max_iter = 3, coef = [1, - 1], tol = 1 / 1000, eps = 1 / 10 ^ 16,
                        saturation = False, extended_output = True, length_s = 1\<rparr>
                      \<lparr>height = 2, width = 2, pixels = [0, 1, 1, 0]\<rparr> = Inr sts
      \<and> transform \<lparr>lambd = 1, max_iter = 3, coef = [1, - 1], tol = 1 / 1000, eps = 1 / 10 ^ 16,
                        saturation = False, extended_output = True, length_s = 1\<rparr>
                      \<lparr>height = 2, width = 2, pixels = [0, 1, 1, 0]\<rparr> = Inr (res (last sts), os)
      \<and> length os = length sts"
proof -
  let ?s = "\<lparr>lambd = 1, max_iter = 3, coef = [1, - 1], tol = 1 / 1000, eps = 1 / 10 ^ 16,
            saturation = False, extended_output = True, length_s = 1\<rparr>"
  let ?X = "\<lparr>height = 2, width = 2, pixels = [0, 1, 1, 0 :: real]\<rparr>"
  note t = objective_trace[where s = ?s and X = ?X and lam = 1 and mi = 3 and cf = "[1, - 1]"
      and tolr = "1 / 1000" and epsr = "1 / 10 ^ 16" and sat = False and ext = True]
  have a: "init 1 3 [1, - 1] (1 / 1000) (1 / 10 ^ 16) False True = Inr ?s
           \<and> 2 \<le> length [1, - 1 :: real] \<and> wf_image ?X
           \<and> length [1, - 1 :: real] - 1 < height ?X \<and> length [1, - 1 :: real] - 1 < width ?X
           \<and> (0::real) < 1 \<and> (\<exists>c\<in>set [1, - 1 :: real]. c \<noteq> 0)"
    by (simp add: init_def wf_image_def)
  from t[THEN conjunct2, rule_format, OF a] obtain sts where sts: "run_states ?s ?X = Inr sts"
    by blast
  from t[THEN conjunct1, rule_format, OF sts] obtain os where
    "transform ?s ?X = Inr (res (last sts), os)" "length os = length sts"
    by auto
  then show ?thesis using sts by blast
qed

subsection \<open>Initialisation\<close>

text \<open>
  Claim C9. On an image \<open>X\<close> of admissible shape the initialisation succeeds, with or without
  saturation: the primal iterate is \<open>X\<close> itself, unclamped; the TV block of the dual variable is
  \<open>clip(sigma[:-hw] * D(X), -1, 1)\<close>, computed from that \<open>X\<close>; the data block is zero. This is
  the state in front of the run.
\<close>

theorem initial_state:
  assumes a: "init lam mi cf tolr epsr sat ext = Inr s \<and> 2 \<le> length cf \<and> wf_image X
           \<and> length cf - 1 < height X \<and> length cf - 1 < width X
           \<and> 0 < lam \<and> (\<exists>c\<in>set cf. c \<noteq> 0)"
  shows "\<exists>tau sigma st0 d sts.
            step_size s (height X, width X) = Inr (tau, sigma)
          \<and> initialize s X sigma = Inr st0
          \<and> run_states s X = Inr (st0 # sts)
          \<and> tv s X = Inr d
          \<and> res st0 = X
          \<and> dual st0 = np_clip (map2 (*) (slice None (Some (- int (height X * width X))) sigma) d) (- 1) 1
                         @ replicate (height X * width X) 0"
proof -
  let ?L = "length cf - 1"
  note v = admissible[OF a]
  let ?tau = "map (\<lambda>x. 1 / x) (tau_sums s ?L (height X) (width X))"
  let ?sigma = "map (\<lambda>x. 1 / x) (sigma_sums s ?L (height X) (width X))"
  have ss: "step_size s (height X, width X) = Inr (?tau, ?sigma)"
    using step_size_total[OF v(1,3,4,5,6)] .
  have lt: "length ?tau = height X * width X" using length_tau_sums[OF v(1,3,4)] by simp
  have ls: "length ?sigma
            = height X * (width X - ?L) + width X * (height X - ?L) + height X * width X"
    by (simp add: length_sigma_sums)
  obtain st0 d where i: "initialize s X ?sigma = Inr st0" and ok: "state_ok ?L X st0"
    and d: "tv s X = Inr d" and r: "res st0 = X"
    and du: "dual st0 = np_clip (map2 (*) (slice None (Some (- int (height X * width X))) ?sigma) d) (- 1) 1
                          @ replicate (height X * width X) 0"
    using initialize_total[OF v(1,2,3,4) ls] by blast
  obtain sts where l: "loop_states s X ?tau ?sigma (nat (max_iter s)) st0 = Inr sts"
    using loop_states_total[OF v(1,2,3,4) lt ls ok] by blast
  have "run_states s X = Inr (st0 # sts)" using ss i l by (simp add: run_states_def)
  then show ?thesis using ss i d r du by blast
qed

theorem initial_state_witness:
  "\<exists>sigma st0 d.
      initialize \<lparr>lambd = 1, max_iter = 3, coef = [1, - 1], tol = 1 / 1000, eps = 1 / 10 ^ 16,
                   saturation = True, extended_output = False, length_s = 1\<rparr>
                 \<lparr>height = 2, width = 2, pixels = [- 1 / 2, 3 / 2, 3 / 2, - 1 / 2]\<rparr> sigma = Inr st0
    \<and> tv \<lparr>lambd = 1, max_iter = 3, coef = [1, - 1], tol = 1 / 1000, eps = 1 / 10 ^ 16,
                   saturation = True, extended_output = False, length_s = 1\<rparr>
                 \<lparr>height = 2, width = 2, pixels = [- 1 / 2, 3 / 2, 3 / 2, - 1 / 2]\<rparr> = Inr d
    \<and> res st0 = \<lparr>height = 2, width = 2, pixels = [- 1 / 2, 3 / 2, 3 / 2, - 1 / 2]\<rparr>
    \<and> dual st0 = np_clip (map2 (*) (slice None (Some (- 4)) sigma) d) (- 1) 1 @ [0, 0, 0, 0]"
proof -
  let ?s = "\<lparr>lambd = 1, max_iter = 3, coef = [1, - 1], tol = 1 / 1000, eps = 1 / 10 ^ 16,
            saturation = True, extended_output = False, length_s = 1\<rparr>"
  let ?X = "\<lparr>height = 2, width = 2, pixels = [- 1 / 2, 3 / 2, 3 / 2, - 1 / 2 :: real]\<rparr>"
  have a: "init 1 3 [1, - 1] (1 / 1000) (1 / 10 ^ 16) True False = Inr ?s
           \<and> 2 \<le> length [1, - 1 :: real] \<and> wf_image ?X
           \<and> length [1, - 1 :: real] - 1 < height ?X \<and> length [1, - 1 :: real] - 1 < width ?X
           \<and> (0::real) < 1 \<and> (\<exists>c\<in>set [1, - 1 :: real]. c \<noteq> 0)"
    by (simp add: init_def wf_image_def)
  have r: "replicate (height ?X * width ?X) (0::real) = [0, 0, 0, 0]"
    by (simp add: numeral_eq_Suc)
  have k: "- int (height ?X * width ?X) = - 4" by simp
  from initial_state[OF a] show ?thesis unfolding r k by blast
qed

subsection \<open>Image dimensions\<close>

text \<open>
  Claim C5, as the code has it. \<^verbatim>\<open>transform\<close> has no check of the image dimensions and raises no
  error of its own. For a constructed solver with at least two coefficients, not all zero, and
  \<open>lambd > 0\<close>, it returns on every image with more than \<open>length\<close> rows and more than \<open>length\<close>
  columns: it can fail only if a dimension is at most \<open>length\<close>.
\<close>

theorem transform_returns_on_admissible:
  assumes "init lam mi cf tolr epsr sat ext = Inr s \<and> 2 \<le> length cf \<and> wf_image X
           \<and> length cf - 1 < height X \<and> length cf - 1 < width X
           \<and> 0 < lam \<and> (\<exists>c\<in>set cf. c \<noteq> 0)"
  shows "\<exists>r os. transform s X = Inr (r, os)"
  using transform_total[OF admissible[OF assms]] .

theorem transform_returns_on_admissible_witness:
  "\<exists>r os. transform \<lparr>lambd = 1, max_iter = 3, coef = [1, - 1], tol = 1 / 1000, eps = 1 / 10 ^ 16,
                     saturation = False, extended_output = False, length_s = 1\<rparr>
                    \<lparr>height = 2, width = 3, pixels = [1, 2, 3, 4, 5, 6]\<rparr> = Inr (r, os)"
proof -
  let ?s = "\<lparr>lambd = 1, max_iter = 3, coef = [1, - 1], tol = 1 / 1000, eps = 1 / 10 ^ 16,
            saturation = False, extended_output = False, length_s = 1\<rparr>"
  let ?X = "\<lparr>height = 2, width = 3, pixels = [1, 2, 3, 4, 5, 6 :: real]\<rparr>"
  have a: "init 1 3 [1, - 1] (1 / 1000) (1 / 10 ^ 16) False False = Inr ?s
           \<and> 2 \<le> length [1, - 1 :: real] \<and> wf_image ?X
           \<and> length [1, - 1 :: real] - 1 < height ?X \<and> length [1, - 1 :: real] - 1 < width ?X
           \<and> (0::real) < 1 \<and> (\<exists>c\<in>set [1, - 1 :: real]. c \<noteq> 0)"
    by (simp add: init_def wf_image_def)
  from transform_returns_on_admissible[OF a] show ?thesis .
qed

text \<open>The claim as stated fails on an image with as many rows as \<open>length\<close>: for the coefficients
  \<open>[1, -1]\<close> (\<open>length = 1\<close>) the image \<open>[[0, 1, 3]]\<close> of one row is processed, and with
  \<open>max_iter = 1\<close> the result of the one iteration is returned.\<close>

theorem transform_accepts_one_row:
  "transform \<lparr>lambd = 1, max_iter = 1, coef = [1, - 1], tol = 1 / 1000, eps = 1 / 10 ^ 16,
              saturation = False, extended_output = False, length_s = 1\<rparr>
             \<lparr>height = 1, width = 3, pixels = [0, 1, 3]\<rparr>
   = Inr (\<lparr>height = 1, width = 3, pixels = [1 / 4, 7 / 6, 5 / 2]\<rparr>, [])"
proof -
  let ?s = "\<lparr>lambd = 1, max_iter = 1, coef = [1, - 1], tol = 1 / 1000, eps = 1 / 10 ^ 16,
            saturation = False, extended_output = False, length_s = 1\<rparr>"
  let ?X = "\<lparr>height = 1, width = 3, pixels = [0, 1, 3 :: real]\<rparr>"
  let ?tau = "[1 / 2, 1 / 3, 1 / 2 :: real]" and ?sigma = "[1 / 2, 1 / 2, 1, 1, 1 :: real]"
  let ?st0 = "\<lparr>res = ?X, dual = [- (1 / 2), - 1, 0, 0, 0], obj = []\<rparr>"
  let ?st1 = "\<lparr>res = \<lparr>height = 1, width = 3, pixels = [1 / 4, 7 / 6, 5 / 2]\<rparr>,
               dual = [- (11 / 12), - 1, 1 / 2, 1 / 3, - 1], obj = []\<rparr>"
  have ss: "step_size ?s (1, 3) = Inr (?tau, ?sigma)" by code_simp
  have ini: "initialize ?s ?X ?sigma = Inr ?st0" by code_simp
  have up: "update ?s ?X ?tau ?sigma ?st0 = Inr ?st1" by code_simp
  have ml: "main_loop ?s ?X ?tau ?sigma (Suc 0) ?st0 = Inr ?st1"
    by (simp only: main_loop.simps iteration_def up bindE_Inr prod.case if_cancel)
  have hx: "height ?X = 1" and wx: "width ?X = 3" and n: "nat (max_iter ?s) = Suc 0"
    by simp_all
  show ?thesis
    unfolding transform_def hx wx n ss bindE_Inr prod.case ini ml by simp
qed

section \<open>Column sums of the stacked operator\<close>































section \<open>The step sizes and the stacked operator\<close>




section \<open>The adjoint identity under rounding\<close>

lemma iadd_slice_r_exact: "iadd_slice_r (\<lambda>x. x) xs lo hi ys = iadd_slice xs lo hi ys"
  by (simp add: iadd_slice_r_def iadd_slice_def)

lemma tv_r_exact: "tv_r (\<lambda>x. x) s u = tv s u"
proof -
  have "tv_step_r (\<lambda>x. x) s u = tv_step s u"
    by (simp add: tv_step_r_def tv_step_def iadd_slice_r_exact fun_eq_iff)
  then show ?thesis by (simp add: tv_r_def tv_def)
qed

lemma transposed_tv_r_exact: "transposed_tv_r (\<lambda>x. x) s v shape = transposed_tv s v shape"
proof -
  have "transposed_tv_step_r (\<lambda>x. x) s v shape v0 = transposed_tv_step s v shape v0" for v0
    by (simp add: transposed_tv_step_r_def transposed_tv_step_def iadd_slice_r_exact fun_eq_iff)
  then show ?thesis by (simp add: transposed_tv_r_def transposed_tv_def)
qed

lemma dot_r_exact: "dot_r (\<lambda>x. x) xs ys = dot xs ys"
proof -
  have "foldl (\<lambda>a (x, y). a + x * y) a zs = a + sum_list (map (\<lambda>(x, y). x * y) zs)"
    for a :: real and zs
    by (induction zs arbitrary: a) (auto simp: algebra_simps)
  then show ?thesis by (simp add: dot_r_def dot_def)
qed


end
